theory Spec2Isabelle
  imports Main "HOL-Library.Word" "HOL-Library.Multiset" "HOL-Library.List_Lexorder" "HOL-Library.Char_ord"
begin

unbundle bit_operations_syntax

section \<open>Go library functions used by the sources\<close>

text \<open>
  \<^verbatim>\<open>strings.Split(s, sep)\<close> (and \<^verbatim>\<open>strings.SplitN(s, sep, -1)\<close>) for a
  one-byte separator: the result is never empty, and the empty string splits into one
  empty token.
\<close>

fun push_char :: "char \<Rightarrow> string list \<Rightarrow> string list" where
  "push_char x [] = [[x]]"
| "push_char x (y # ys) = (x # y) # ys"

fun split_on :: "char \<Rightarrow> string \<Rightarrow> string list" where
  "split_on c [] = [[]]"
| "split_on c (x # xs) =
     (if x = c then [] # split_on c xs else push_char x (split_on c xs))"

text \<open>\<^verbatim>\<open>strings.Join(xs, sep)\<close>.\<close>

fun join :: "string \<Rightarrow> string list \<Rightarrow> string" where
  "join sep [] = []"
| "join sep [x] = x"
| "join sep (x # y # ys) = x @ sep @ join sep (y # ys)"

text \<open>\<^verbatim>\<open>strings.SplitN(s, sep, 2)\<close> for a one-byte separator: cut at its first occurrence.\<close>

definition splitN2 :: "char \<Rightarrow> string \<Rightarrow> string list" where
  "splitN2 c s =
     (if c \<in> set s then [takeWhile (\<lambda>x. x \<noteq> c) s, tl (dropWhile (\<lambda>x. x \<noteq> c) s)] else [s])"

text \<open>
  Go errors as values: \<^verbatim>\<open>fmt.Errorf\<close> with its rendered message, with a message
  that ends in another error, or with another error between two pieces of text;
  \<^verbatim>\<open>errors.Wrap\<close>; the errors returned by calls into code
  outside these sources (named by the call); the sentinel errors \<^verbatim>\<open>os.ErrNotExist\<close>,
  \<^verbatim>\<open>idmap.ErrHostIdIsSubId\<close> and \<^verbatim>\<open>device.ErrUnsupportedDevType\<close>; a run-time panic.
\<close>

datatype error =
    Errorf string | ErrorfErr string error | ErrorfAround string error string
  | Wrap error string | External string
  | ErrNotExist | ErrHostIdIsSubId | ErrUnsupportedDevType | Panic string

text \<open>Go's \<^verbatim>\<open>int\<close> and \<^verbatim>\<open>int64\<close>: 64-bit two's complement, wrapping silently.\<close>

definition wrap64 :: "int \<Rightarrow> int" where
  "wrap64 x = (x + 2 ^ 63) mod 2 ^ 64 - 2 ^ 63"

definition maxInt64 :: int where
  "maxInt64 = 2 ^ 63 - 1"

text \<open>
  \<^verbatim>\<open>strconv.Atoi\<close> (and \<^verbatim>\<open>strconv.ParseInt(s, 10, 64)\<close>): an optional sign, then
  one or more decimal digits, and a value that fits in 64 bits; anything else is an
  error, here \<open>None\<close>.
\<close>

definition isDigit :: "char \<Rightarrow> bool" where
  "isDigit c = (c \<in> set ''0123456789'')"

definition decimal :: "string \<Rightarrow> int" where
  "decimal ds = foldl (\<lambda>n c. 10 * n + (of_char c - 48)) 0 ds"

definition Atoi :: "string \<Rightarrow> int option" where
  "Atoi s =
     (let neg = (s \<noteq> [] \<and> hd s = CHR ''-'');
          ds = (if s \<noteq> [] \<and> (hd s = CHR ''-'' \<or> hd s = CHR ''+'') then tl s else s)
      in if ds = [] \<or> \<not> list_all isDigit ds then None
         else (let v = (if neg then - decimal ds else decimal ds)
               in if - (2 ^ 63) \<le> v \<and> v < 2 ^ 63 then Some v else None))"

lemma wrap64_id: "- (2 ^ 63) \<le> x \<Longrightarrow> x < 2 ^ 63 \<Longrightarrow> wrap64 x = x"
  by (simp add: wrap64_def)

lemma wrap64_range: "- (2 ^ 63) \<le> wrap64 x \<and> wrap64 x < 2 ^ 63"
  by (simp add: wrap64_def)

lemma Atoi_range: "Atoi s = Some v \<Longrightarrow> - (2 ^ 63) \<le> v \<and> v < 2 ^ 63"
  by (auto simp: Atoi_def Let_def split: if_splits)

definition add64 :: "int \<Rightarrow> int \<Rightarrow> int" where
  "add64 a b = wrap64 (a + b)"

definition sub64 :: "int \<Rightarrow> int \<Rightarrow> int" where
  "sub64 a b = wrap64 (a - b)"

lemma add64_id: "- (2 ^ 63) \<le> a + b \<Longrightarrow> a + b < 2 ^ 63 \<Longrightarrow> add64 a b = a + b"
  by (simp add: add64_def wrap64_id)

text \<open>\<^verbatim>\<open>fmt.Sprintf("%d", i)\<close>: the decimal rendering of an integer.\<close>

function showDigits :: "int \<Rightarrow> string" where
  "showDigits n =
     (if n < 10 then [char_of (48 + n)] else showDigits (n div 10) @ [char_of (48 + n mod 10)])"
  by pat_completeness auto
termination
  by (relation "measure nat") auto

declare showDigits.simps [simp del]

definition showInt :: "int \<Rightarrow> string" where
  "showInt i = (if i < 0 then CHR ''-'' # showDigits (- i) else showDigits i)"

section \<open>Configuration values and containers\<close>

text \<open>
  A Go \<^verbatim>\<open>map[string]string\<close> is a partial map; reading a key that is absent gives the
  empty string, which is what \<open>cfg\<close> does.
\<close>

definition cfg :: "(string \<rightharpoonup> string) \<Rightarrow> string \<Rightarrow> string" where
  "cfg m k = (case m k of None \<Rightarrow> [] | Some v \<Rightarrow> v)"

text \<open>\<^verbatim>\<open>strings.ToLower\<close>, on the ASCII letters.\<close>

definition toLower :: "string \<Rightarrow> string" where
  "toLower s =
     map (\<lambda>c. if 65 \<le> (of_char c :: nat) \<and> (of_char c :: nat) \<le> 90
                then char_of (of_char c + 32 :: nat) else c) s"

text \<open>
  Modelled from the spec: \<^verbatim>\<open>shared.IsTrue\<close> is not among the sources. The spec writes
  boolean keys with the value \<open>true\<close>; the model takes a value as true when, in lower
  case, it is one of \<open>true\<close>, \<open>1\<close>, \<open>yes\<close> and \<open>on\<close>.
\<close>

definition IsTrue :: "string \<Rightarrow> bool" where
  "IsTrue v = (toLower v \<in> set [''true'', ''1'', ''yes'', ''on''])"

text \<open>
  The fields of \<^verbatim>\<open>containerLXC\<close> that the functions below read: the name, whether
  the type is \<^verbatim>\<open>db.CTypeSnapshot\<close>, and the expanded and local configurations.
\<close>

record container =
  name :: string
  isSnapshot :: bool
  expandedConfig :: "string \<rightharpoonup> string"
  localConfig :: "string \<rightharpoonup> string"

definition IsPrivileged :: "container \<Rightarrow> bool" where
  "IsPrivileged c = IsTrue (cfg (expandedConfig c) ''security.privileged'')"

section \<open>Mount options (storage utilities)\<close>

record mountOptions =
  capture :: bool
  flag :: "64 word"

text \<open>
  The mount flags of \<^verbatim>\<open>golang.org/x/sys/unix\<close> on Linux; \<^verbatim>\<open>uintptr\<close> is a
  64-bit unsigned word.
\<close>

definition MS_RDONLY :: "64 word" where "MS_RDONLY = 0x1"
definition MS_NOSUID :: "64 word" where "MS_NOSUID = 0x2"
definition MS_NODEV :: "64 word" where "MS_NODEV = 0x4"
definition MS_NOEXEC :: "64 word" where "MS_NOEXEC = 0x8"
definition MS_SYNCHRONOUS :: "64 word" where "MS_SYNCHRONOUS = 0x10"
definition MS_REMOUNT :: "64 word" where "MS_REMOUNT = 0x20"
definition MS_MANDLOCK :: "64 word" where "MS_MANDLOCK = 0x40"
definition MS_DIRSYNC :: "64 word" where "MS_DIRSYNC = 0x80"
definition MS_NOATIME :: "64 word" where "MS_NOATIME = 0x400"
definition MS_NODIRATIME :: "64 word" where "MS_NODIRATIME = 0x800"
definition MS_BIND :: "64 word" where "MS_BIND = 0x1000"
definition MS_REC :: "64 word" where "MS_REC = 0x4000"
definition MS_RELATIME :: "64 word" where "MS_RELATIME = 0x200000"
definition MS_STRICTATIME :: "64 word" where "MS_STRICTATIME = 0x1000000"
definition MS_LAZYTIME :: "64 word" where "MS_LAZYTIME = 0x2000000"

definition mkopt :: "bool \<Rightarrow> 64 word \<Rightarrow> mountOptions" where
  "mkopt c f = \<lparr>capture = c, flag = f\<rparr>"

definition MountOptionsTable :: "(string \<times> mountOptions) list" where
  "MountOptionsTable =
    [(''async'', mkopt False MS_SYNCHRONOUS),
     (''atime'', mkopt False MS_NOATIME),
     (''bind'', mkopt True MS_BIND),
     (''defaults'', mkopt True 0),
     (''dev'', mkopt False MS_NODEV),
     (''diratime'', mkopt False MS_NODIRATIME),
     (''dirsync'', mkopt True MS_DIRSYNC),
     (''exec'', mkopt False MS_NOEXEC),
     (''lazytime'', mkopt True MS_LAZYTIME),
     (''mand'', mkopt True MS_MANDLOCK),
     (''noatime'', mkopt True MS_NOATIME),
     (''nodev'', mkopt True MS_NODEV),
     (''nodiratime'', mkopt True MS_NODIRATIME),
     (''noexec'', mkopt True MS_NOEXEC),
     (''nomand'', mkopt False MS_MANDLOCK),
     (''norelatime'', mkopt False MS_RELATIME),
     (''nostrictatime'', mkopt False MS_STRICTATIME),
     (''nosuid'', mkopt True MS_NOSUID),
     (''rbind'', mkopt True (MS_BIND OR MS_REC)),
     (''relatime'', mkopt True MS_RELATIME),
     (''remount'', mkopt True MS_REMOUNT),
     (''ro'', mkopt True MS_RDONLY),
     (''rw'', mkopt False MS_RDONLY),
     (''strictatime'', mkopt True MS_STRICTATIME),
     (''suid'', mkopt False MS_NOSUID),
     (''sync'', mkopt True MS_SYNCHRONOUS)]"

definition MountOptions :: "string \<rightharpoonup> mountOptions" where
  "MountOptions = map_of MountOptionsTable"

text \<open>The body of the loop for a recognised option: set or clear its flag.\<close>

definition applyOption :: "64 word \<Rightarrow> mountOptions \<Rightarrow> 64 word" where
  "applyOption mountFlags d =
     (if capture d then mountFlags OR flag d else mountFlags AND NOT (flag d))"

text \<open>
  The loop of \<^verbatim>\<open>lxdResolveMountoptions\<close>, on the index \<open>i\<close>, the slice \<open>tmp\<close> and
  the flags. An unknown token is skipped (\<open>i\<close> advances). A known token is applied and
  then cut out of the slice (\<^verbatim>\<open>copy(tmp[i:], tmp[i+1:])\<close> and the truncation by
  one); the source's \<^verbatim>\<open>i--\<close> followed by the loop's \<^verbatim>\<open>i++\<close> leaves \<open>i\<close> where
  it is.
\<close>

function resolveLoop :: "nat \<Rightarrow> string list \<Rightarrow> 64 word \<Rightarrow> 64 word \<times> string list" where
  "resolveLoop i tmp mountFlags =
     (if i < length tmp then
        (case MountOptions (tmp ! i) of
           None \<Rightarrow> resolveLoop (i + 1) tmp mountFlags
         | Some d \<Rightarrow> resolveLoop i (take i tmp @ drop (i + 1) tmp) (applyOption mountFlags d))
      else (mountFlags, tmp))"
  by pat_completeness auto
termination
  by (relation "measure (\<lambda>(i, tmp, f). length tmp - i)") auto

declare resolveLoop.simps [simp del]

definition lxdResolveMountoptions :: "string \<Rightarrow> 64 word \<times> string" where
  "lxdResolveMountoptions options =
     (case resolveLoop 0 (split_on CHR '','' options) 0 of
        (mountFlags, tmp) \<Rightarrow> (mountFlags, join '','' tmp))"

text \<open>The reading of the loop as a filter and a fold, used to state its result.\<close>

definition recognised :: "string \<Rightarrow> bool" where
  "recognised opt = (MountOptions opt \<noteq> None)"

definition foldOption :: "64 word \<Rightarrow> string \<Rightarrow> 64 word" where
  "foldOption mountFlags opt =
     (case MountOptions opt of None \<Rightarrow> mountFlags | Some d \<Rightarrow> applyOption mountFlags d)"

section \<open>Results on mount options\<close>

lemma resolveLoop_filter_fold:
  "resolveLoop i tmp f =
     (foldl foldOption f (filter recognised (drop i tmp)),
      take i tmp @ filter (\<lambda>t. \<not> recognised t) (drop i tmp))"
proof (induction i tmp f rule: resolveLoop.induct)
  case (1 i tmp f)
  show ?case
  proof (cases "i < length tmp")
    case False
    then show ?thesis by (subst resolveLoop.simps) simp
  next
    case inb: True
    then have dr: "drop i tmp = tmp ! i # drop (Suc i) tmp"
      by (simp add: Cons_nth_drop_Suc)
    show ?thesis
    proof (cases "MountOptions (tmp ! i)")
      case None
      then have nr: "\<not> recognised (tmp ! i)" by (simp add: recognised_def)
      have tk: "take (Suc i) tmp = take i tmp @ [tmp ! i]"
        using inb by (simp add: take_Suc_conv_app_nth)
      from "1.IH"(1) [OF inb None] inb None nr dr tk show ?thesis
        by (subst resolveLoop.simps) simp
    next
      case (Some d)
      then have r: "recognised (tmp ! i)" by (simp add: recognised_def)
      have len: "length (take i tmp) = i" using inb by simp
      have dr': "drop i (take i tmp @ drop (Suc i) tmp) = drop (Suc i) tmp"
        using len by simp
      have tk': "take i (take i tmp @ drop (Suc i) tmp) = take i tmp"
        using len by simp
      have fo: "foldOption f (tmp ! i) = applyOption f d"
        using Some by (simp add: foldOption_def)
      from "1.IH"(2) [OF inb Some] inb Some r dr dr' tk' fo show ?thesis
        by (subst resolveLoop.simps) simp
    qed
  qed
qed

lemma lxdResolveMountoptions_example:
  "lxdResolveMountoptions ''ro,noatime,foo,rw,nosuid'' = (0x402, ''foo'')"
  by code_simp

text \<open>
  C9. For every mount-options string, \<^verbatim>\<open>lxdResolveMountoptions\<close> splits it on
  commas; the returned remainder is the tokens that are not keys of \<^verbatim>\<open>MountOptions\<close>,
  in their original order, joined by commas; the returned flags are the fold, from 0
  and in order, over the tokens that are keys of the table, OR-ing the token's flag in
  when its capture bit is true and clearing it when the bit is false.
\<close>

theorem lxdResolveMountoptions_filter_fold:
  "lxdResolveMountoptions options =
     (foldl (\<lambda>mountFlags t.
               if capture (the (MountOptions t))
               then mountFlags OR flag (the (MountOptions t))
               else mountFlags AND NOT (flag (the (MountOptions t))))
        0 (filter (\<lambda>t. t \<in> dom MountOptions) (split_on CHR '','' options)),
      join '','' (filter (\<lambda>t. t \<notin> dom MountOptions) (split_on CHR '','' options)))"
proof -
  have r: "recognised = (\<lambda>t. t \<in> dom MountOptions)"
    by (rule ext) (auto simp: recognised_def)
  have "foldl foldOption f (filter recognised ts) =
        foldl (\<lambda>mountFlags t.
               if capture (the (MountOptions t))
               then mountFlags OR flag (the (MountOptions t))
               else mountFlags AND NOT (flag (the (MountOptions t))))
          f (filter recognised ts)" for f ts
    by (induction ts arbitrary: f) (auto simp: foldOption_def recognised_def applyOption_def)
  then show ?thesis
    by (simp add: lxdResolveMountoptions_def resolveLoop_filter_fold r)
qed

section \<open>Parsing cpu sets (devices)\<close>

text \<open>
  The loop \<^verbatim>\<open>for i := low; i <= high; i++ { cpus = append(cpus, i) }\<close> on 64-bit
  integers. When \<open>high\<close> is the largest integer the test never fails (\<open>i++\<close> wraps),
  so the loop does not end: \<open>None\<close>.
\<close>

partial_function (option) rangeLoop :: "int \<Rightarrow> int \<Rightarrow> int list \<Rightarrow> int list option" where
  "rangeLoop i high cpus =
     (if i \<le> high then rangeLoop (wrap64 (i + 1)) high (cpus @ [i]) else Some cpus)"

definition invalidCpuset :: "string \<Rightarrow> error" where
  "invalidCpuset cpu = Errorf (''Invalid cpuset value: '' @ cpu)"

text \<open>The loop over the chunks of \<^verbatim>\<open>parseCpuset\<close>; \<open>None\<close> when a range loop does not end.\<close>

fun parseChunks :: "string \<Rightarrow> string list \<Rightarrow> int list \<Rightarrow> (error + int list) option" where
  "parseChunks cpu [] cpus = Some (Inr cpus)"
| "parseChunks cpu (chunk # chunks) cpus =
     (if CHR ''-'' \<in> set chunk then
        (let fields = splitN2 CHR ''-'' chunk in
         if length fields \<noteq> 2 then Some (Inl (invalidCpuset cpu))
         else
           (case Atoi (fields ! 0) of
              None \<Rightarrow> Some (Inl (invalidCpuset cpu))
            | Some low \<Rightarrow>
                (case Atoi (fields ! 1) of
                   None \<Rightarrow> Some (Inl (invalidCpuset cpu))
                 | Some high \<Rightarrow>
                     (case rangeLoop low high cpus of
                        None \<Rightarrow> None
                      | Some cpus' \<Rightarrow> parseChunks cpu chunks cpus'))))
      else
        (case Atoi chunk of
           None \<Rightarrow> Some (Inl (invalidCpuset cpu))
         | Some nr \<Rightarrow> parseChunks cpu chunks (cpus @ [nr])))"

definition parseCpuset :: "string \<Rightarrow> (error + int list) option" where
  "parseCpuset cpu = parseChunks cpu (split_on CHR '','' cpu) []"


text \<open>
  What a chunk is to the code: a range when it contains \<open>-\<close>, with the two fields cut
  at the first \<open>-\<close>; rejected when a field (or the plain chunk) is not an integer for
  \<^verbatim>\<open>strconv.Atoi\<close>; endless when it is an accepted range up to the largest integer.
\<close>

definition isRangeChunk :: "string \<Rightarrow> bool" where
  "isRangeChunk chunk = (CHR ''-'' \<in> set chunk)"

definition rangeLow :: "string \<Rightarrow> int option" where
  "rangeLow chunk = Atoi (takeWhile (\<lambda>x. x \<noteq> CHR ''-'') chunk)"

definition rangeHigh :: "string \<Rightarrow> int option" where
  "rangeHigh chunk = Atoi (tl (dropWhile (\<lambda>x. x \<noteq> CHR ''-'') chunk))"

definition rejected :: "string \<Rightarrow> bool" where
  "rejected chunk =
     (if isRangeChunk chunk then rangeLow chunk = None \<or> rangeHigh chunk = None
      else Atoi chunk = None)"

definition endless :: "string \<Rightarrow> bool" where
  "endless chunk =
     (isRangeChunk chunk \<and> rangeLow chunk \<noteq> None \<and> rangeHigh chunk = Some maxInt64)"

definition chunkCpus :: "string \<Rightarrow> int list" where
  "chunkCpus chunk =
     (if isRangeChunk chunk then [the (rangeLow chunk)..the (rangeHigh chunk)]
      else [the (Atoi chunk)])"

text \<open>
  The notions of the claim: returning an error; being a decimal integer, read as
  \<^verbatim>\<open>strconv.Atoi\<close> reads it (\<open>isInt\<close>) or as a plain string of digits (\<open>isDigits\<close>);
  being of the form \<open>A-B\<close> with both parts such integers.
\<close>

definition isError :: "(error + int list) option \<Rightarrow> bool" where
  "isError r = (case r of Some (Inl e) \<Rightarrow> True | _ \<Rightarrow> False)"

definition isInt :: "string \<Rightarrow> bool" where
  "isInt s = (Atoi s \<noteq> None)"

definition isDigits :: "string \<Rightarrow> bool" where
  "isDigits s = (s \<noteq> [] \<and> list_all isDigit s)"

definition rangeForm :: "(string \<Rightarrow> bool) \<Rightarrow> string \<Rightarrow> bool" where
  "rangeForm P chunk =
     list_ex (\<lambda>i. chunk ! i = CHR ''-'' \<and> P (take i chunk) \<and> P (drop (i + 1) chunk))
       [0..<length chunk]"

subsection \<open>Results on parseCpuset\<close>

lemma rangeLoop_upto:
  "- (2 ^ 63) \<le> low \<Longrightarrow> high < 2 ^ 63 - 1 \<Longrightarrow> rangeLoop low high cpus = Some (cpus @ [low..high])"
proof (induction "nat (high + 1 - low)" arbitrary: low cpus)
  case 0
  then have "\<not> low \<le> high" by simp
  then show ?case by (subst rangeLoop.simps) simp
next
  case (Suc n)
  then have le: "low \<le> high" by simp
  have w: "wrap64 (low + 1) = low + 1"
    using Suc.prems le by (intro wrap64_id) simp_all
  have "rangeLoop (low + 1) high (cpus @ [low]) = Some ((cpus @ [low]) @ [low + 1..high])"
    using Suc by (intro Suc.hyps(1)) simp_all
  then show ?case
    using le w by (subst rangeLoop.simps) (simp add: upto_rec1)
qed

lemma rangeLoop_Some_not_max:
  assumes "rangeLoop i high cpus = Some y"
  shows "high \<noteq> maxInt64 \<or> maxInt64 < i"
proof (rule rangeLoop.raw_induct
    [where P = "\<lambda>i high cpus y. high \<noteq> maxInt64 \<or> maxInt64 < i", OF _ assms])
  fix f :: "int \<Rightarrow> int \<Rightarrow> int list \<Rightarrow> int list option"
  fix i high :: int and cpus y :: "int list"
  assume IH: "\<And>i high cpus y. f i high cpus = Some y \<Longrightarrow> high \<noteq> maxInt64 \<or> maxInt64 < i"
    and body: "(if i \<le> high then f (wrap64 (i + 1)) high (cpus @ [i]) else Some cpus) = Some y"
  show "high \<noteq> maxInt64 \<or> maxInt64 < i"
  proof (cases "i \<le> high")
    case True
    with body have "f (wrap64 (i + 1)) high (cpus @ [i]) = Some y" by simp
    from IH [OF this] wrap64_range [of "i + 1"] show ?thesis by (simp add: maxInt64_def)
  next
    case False
    then show ?thesis by auto
  qed
qed

lemma rangeLoop_max_diverges:
  "i \<le> maxInt64 \<Longrightarrow> rangeLoop i maxInt64 cpus = None"
  using rangeLoop_Some_not_max [of i maxInt64 cpus] by (cases "rangeLoop i maxInt64 cpus") auto


lemma parseChunks_step_range:
  assumes "isRangeChunk chunk"
  shows "parseChunks cpu (chunk # chunks) cpus =
     (case rangeLow chunk of
        None \<Rightarrow> Some (Inl (invalidCpuset cpu))
      | Some low \<Rightarrow>
          (case rangeHigh chunk of
             None \<Rightarrow> Some (Inl (invalidCpuset cpu))
           | Some high \<Rightarrow>
               (case rangeLoop low high cpus of
                  None \<Rightarrow> None
                | Some cpus' \<Rightarrow> parseChunks cpu chunks cpus')))"
  using assms
  by (simp add: isRangeChunk_def splitN2_def rangeLow_def rangeHigh_def cong: option.case_cong)

lemma parseChunks_step_plain:
  assumes "\<not> isRangeChunk chunk"
  shows "parseChunks cpu (chunk # chunks) cpus =
     (case Atoi chunk of
        None \<Rightarrow> Some (Inl (invalidCpuset cpu))
      | Some nr \<Rightarrow> parseChunks cpu chunks (cpus @ [nr]))"
  using assms by (simp add: isRangeChunk_def)

lemma parseChunks_char:
  "parseChunks cpu chunks cpus =
     (case find (\<lambda>c. rejected c \<or> endless c) chunks of
        None \<Rightarrow> Some (Inr (cpus @ concat (map chunkCpus chunks)))
      | Some c \<Rightarrow> if rejected c then Some (Inl (invalidCpuset cpu)) else None)"
proof (induction chunks arbitrary: cpus)
  case Nil
  show ?case by simp
next
  case (Cons chunk chunks)
  show ?case
  proof (cases "isRangeChunk chunk")
    case plain: False
    then have ne: "\<not> endless chunk" by (simp add: endless_def)
    show ?thesis
    proof (cases "Atoi chunk")
      case None
      with plain have "rejected chunk" by (simp add: rejected_def)
      with plain None show ?thesis
        by (simp add: parseChunks_step_plain cong: option.case_cong del: parseChunks.simps)
    next
      case (Some nr)
      with plain have nr: "\<not> rejected chunk" and cc: "chunkCpus chunk = [nr]"
        by (simp_all add: rejected_def chunkCpus_def)
      from plain Some nr ne cc Cons.IH [of "cpus @ [nr]"] show ?thesis
        by (simp add: parseChunks_step_plain cong: option.case_cong del: parseChunks.simps)
    qed
  next
    case rng: True
    show ?thesis
    proof (cases "rangeLow chunk")
      case None
      with rng have "rejected chunk" by (simp add: rejected_def)
      with rng None show ?thesis
        by (simp add: parseChunks_step_range cong: option.case_cong del: parseChunks.simps)
    next
      case low: (Some low)
      show ?thesis
      proof (cases "rangeHigh chunk")
        case None
        with rng have "rejected chunk" by (simp add: rejected_def)
        with rng low None show ?thesis
          by (simp add: parseChunks_step_range cong: option.case_cong del: parseChunks.simps)
      next
        case high: (Some high)
        from rng low high have nr: "\<not> rejected chunk"
          and cc: "chunkCpus chunk = [low..high]"
          and en: "endless chunk = (high = maxInt64)"
          by (simp_all add: rejected_def chunkCpus_def endless_def)
        have lowr: "- (2 ^ 63) \<le> low" "low \<le> maxInt64"
          using Atoi_range [OF low [unfolded rangeLow_def]] by (simp_all add: maxInt64_def)
        have highr: "high \<le> maxInt64"
          using Atoi_range [OF high [unfolded rangeHigh_def]] by (simp add: maxInt64_def)
        show ?thesis
        proof (cases "high = maxInt64")
          case True
          with lowr have "rangeLoop low high cpus = None"
            by (simp add: rangeLoop_max_diverges)
          with rng low high nr en True show ?thesis
            by (simp add: parseChunks_step_range cong: option.case_cong del: parseChunks.simps)
        next
          case False
          with highr have "high < 2 ^ 63 - 1" by (simp add: maxInt64_def)
          with lowr have "rangeLoop low high cpus = Some (cpus @ [low..high])"
            by (intro rangeLoop_upto)
          with rng low high False nr en cc Cons.IH [of "cpus @ [low..high]"] show ?thesis
            by (simp add: parseChunks_step_range cong: option.case_cong del: parseChunks.simps)
        qed
      qed
    qed
  qed
qed

lemma atoi_evals:
  "Atoi ''-5'' = Some (- 5)" "Atoi ''+5'' = Some 5" "Atoi [] = None" "Atoi ''5'' = Some 5"
  by (simp_all add: Atoi_def isDigit_def decimal_def)

lemma parseCpuset_minus5: "parseCpuset ''-5'' = Some (Inl (invalidCpuset ''-5''))"
  by (simp add: parseCpuset_def splitN2_def atoi_evals)

lemma parseCpuset_plus5: "parseCpuset ''+5'' = Some (Inr [5])"
  by (simp add: parseCpuset_def atoi_evals)

lemma parseCpuset_endless_example:
  "parseCpuset ''0-9223372036854775807'' = None"
proof -
  have a: "Atoi ''0'' = Some 0"
    by (simp add: Atoi_def isDigit_def decimal_def)
  have b: "Atoi ''9223372036854775807'' = Some maxInt64"
    by (simp add: Atoi_def isDigit_def decimal_def maxInt64_def)
  show ?thesis
    by (simp add: parseCpuset_def parseChunks_char rejected_def endless_def isRangeChunk_def rangeLow_def
        rangeHigh_def a b)
qed

lemma parseCpuset_example:
  "parseCpuset ''0-3,6,5-4'' = Some (Inr [0, 1, 2, 3, 6])"
proof -
  have a: "Atoi ''0'' = Some 0" "Atoi ''3'' = Some 3" "Atoi ''6'' = Some 6"
    "Atoi ''5'' = Some 5" "Atoi ''4'' = Some 4"
    by (simp_all add: Atoi_def isDigit_def decimal_def)
  have u: "[0..3] = [0, 1, 2, 3::int]" "[5..4] = ([]::int list)"
    by (simp_all add: upto_rec1)
  show ?thesis
    by (simp add: parseCpuset_def parseChunks_char rejected_def endless_def isRangeChunk_def rangeLow_def
        rangeHigh_def chunkCpus_def a u maxInt64_def)
qed

text \<open>
  C10, as stated: \<^verbatim>\<open>parseCpuset\<close> returns an error exactly when some comma-separated
  chunk is neither a decimal integer nor of the form \<open>A-B\<close> with \<open>A\<close> and \<open>B\<close> decimal
  integers. This fails whichever way a decimal integer is read. Read as
  \<^verbatim>\<open>strconv.Atoi\<close> reads it, the chunk \<open>-5\<close> is an integer and the code returns an
  error on it (it holds a \<open>-\<close>, and its first field is empty). Read as a string of
  digits, the chunk \<open>+5\<close> is neither an integer nor a range and the code accepts it.
\<close>

theorem parseCpuset_error_iff_counterexample:
  "\<not> (\<forall>cpu. isError (parseCpuset cpu) =
         list_ex (\<lambda>chunk. \<not> isInt chunk \<and> \<not> rangeForm isInt chunk) (split_on CHR '','' cpu))
   \<and> \<not> (\<forall>cpu. isError (parseCpuset cpu) =
         list_ex (\<lambda>chunk. \<not> isDigits chunk \<and> \<not> rangeForm isDigits chunk)
           (split_on CHR '','' cpu))"
proof (intro conjI notI)
  assume "\<forall>cpu. isError (parseCpuset cpu) =
         list_ex (\<lambda>chunk. \<not> isInt chunk \<and> \<not> rangeForm isInt chunk) (split_on CHR '','' cpu)"
  then have "isError (parseCpuset ''-5'') =
         list_ex (\<lambda>chunk. \<not> isInt chunk \<and> \<not> rangeForm isInt chunk) (split_on CHR '','' ''-5'')"
    by blast
  then show False
    by (simp add: parseCpuset_minus5 isError_def isInt_def atoi_evals)
next
  assume "\<forall>cpu. isError (parseCpuset cpu) =
         list_ex (\<lambda>chunk. \<not> isDigits chunk \<and> \<not> rangeForm isDigits chunk)
           (split_on CHR '','' cpu)"
  then have "isError (parseCpuset ''+5'') =
         list_ex (\<lambda>chunk. \<not> isDigits chunk \<and> \<not> rangeForm isDigits chunk)
           (split_on CHR '','' ''+5'')"
    by blast
  moreover have "[0..<length ''+5''] = [0, 1]" by (simp add: upt_conv_Cons)
  ultimately show False
    by (simp add: parseCpuset_plus5 isError_def isDigits_def isDigit_def rangeForm_def)
qed

text \<open>
  C10, amended. \<^verbatim>\<open>parseCpuset\<close> goes through the chunks in order. It returns the error
  at the first chunk that is rejected: one that holds a \<open>-\<close> and, cut at its first
  \<open>-\<close>, has a field that \<^verbatim>\<open>strconv.Atoi\<close> refuses, or one that holds no \<open>-\<close> and
  that \<^verbatim>\<open>strconv.Atoi\<close> refuses. When no chunk is rejected the result is the
  concatenation, in order, of the integers \<open>A\<close> through \<open>B\<close> inclusive for a range
  chunk (none when \<open>A > B\<close>, without error) and of the single integer of a plain
  chunk. The exception is an accepted range whose upper bound is the largest 64-bit
  integer, met before any rejected chunk: there the function does not return.
\<close>

theorem parseCpuset_characterisation:
  "parseCpuset cpu =
     (case find (\<lambda>c. rejected c \<or> endless c) (split_on CHR '','' cpu) of
        None \<Rightarrow> Some (Inr (concat (map chunkCpus (split_on CHR '','' cpu))))
      | Some c \<Rightarrow> if rejected c then Some (Inl (invalidCpuset cpu)) else None)"
  by (simp add: parseCpuset_def parseChunks_char split: option.splits)

section \<open>Id map allocation (findIdmap)\<close>

text \<open>
  \<^verbatim>\<open>idmap.IdmapEntry\<close> and \<^verbatim>\<open>idmap.IdmapSet\<close>; ids are \<^verbatim>\<open>int64\<close>.
\<close>

record IdmapEntry =
  Isuid :: bool
  Isgid :: bool
  Hostid :: int
  Nsid :: int
  Maprange :: int

type_synonym IdmapSet = "IdmapEntry list"

text \<open>
  \<^verbatim>\<open>idmapSize\<close>, on the host's id map (\<^verbatim>\<open>state.OS.IdmapSet.Idmap\<close>). Its error
  message renders the host's set with \<^verbatim>\<open>%v\<close>, which prints a pointer to a structure as
  \<^verbatim>\<open>&{...}\<close>, a slice in brackets and each entry's fields in braces, separated by
  spaces.
\<close>

definition showBool :: "bool \<Rightarrow> string" where
  "showBool b = (if b then ''true'' else ''false'')"

definition showEntry :: "IdmapEntry \<Rightarrow> string" where
  "showEntry e =
     ''{'' @ showBool (Isuid e) @ '' '' @ showBool (Isgid e) @ '' '' @ showInt (Hostid e)
     @ '' '' @ showInt (Nsid e) @ '' '' @ showInt (Maprange e) @ ''}''"

definition showIdmapSet :: "IdmapSet \<Rightarrow> string" where
  "showIdmapSet s = ''&{['' @ join '' '' (map showEntry s) @ '']}''"

definition idmapSize :: "IdmapSet \<Rightarrow> string \<Rightarrow> string \<Rightarrow> error + int" where
  "idmapSize hostIdmap isolatedStr size' =
     (if size' = [] \<or> size' = ''auto'' then
        (if IsTrue isolatedStr then Inr 65536
         else if length hostIdmap \<noteq> 2
         then Inl (Errorf (''bad initial idmap: '' @ showIdmapSet hostIdmap))
         else Inr (Maprange (hostIdmap ! 0)))
      else (case Atoi size' of
              None \<Rightarrow> Inl (External ''strconv.ParseInt'')
            | Some v \<Rightarrow> Inr v))"

text \<open>
  \<^verbatim>\<open>parseRawIdmap\<close> with its local \<^verbatim>\<open>getRange\<close>. \<^verbatim>\<open>IdmapSet.AddSafe\<close> is not
  among the sources: it is the parameter \<open>AddSafe\<close>, which returns the error, if any,
  and the set as the call leaves it.
\<close>

definition getRange :: "string \<Rightarrow> error + (int \<times> int)" where
  "getRange r =
     (let entries = split_on CHR ''-'' r in
      if length entries > 2 then Inl (Errorf (''invalid raw.idmap range '' @ r))
      else (case Atoi (entries ! 0) of
              None \<Rightarrow> Inl (External ''strconv.ParseInt'')
            | Some base \<Rightarrow>
                if length entries > 1 then
                  (case Atoi (entries ! 1) of
                     None \<Rightarrow> Inl (External ''strconv.ParseInt'')
                   | Some sz \<Rightarrow> Inr (base, add64 (sub64 sz base) 1))
                else Inr (base, 1)))"

fun parseRawLines ::
  "(IdmapSet \<Rightarrow> IdmapEntry \<Rightarrow> error option \<times> IdmapSet) \<Rightarrow> IdmapSet \<Rightarrow> string list
   \<Rightarrow> error + IdmapSet" where
  "parseRawLines AddSafe ret [] = Inr ret"
| "parseRawLines AddSafe ret (line # lines) =
     (if line = [] then parseRawLines AddSafe ret lines
      else
        (let entries = split_on CHR '' '' line in
         if length entries \<noteq> 3 then Inl (Errorf (''invalid raw.idmap line '' @ line))
         else
           (case getRange (entries ! 1) of
              Inl e \<Rightarrow> Inl e
            | Inr (outsideBase, outsideSize) \<Rightarrow>
                (case getRange (entries ! 2) of
                   Inl e \<Rightarrow> Inl e
                 | Inr (insideBase, insideSize) \<Rightarrow>
                     if insideSize \<noteq> outsideSize
                     then Inl (Errorf (''idmap ranges of different sizes '' @ line))
                     else
                       (let entry = \<lparr>Isuid = False, Isgid = False, Hostid = outsideBase,
                                      Nsid = insideBase, Maprange = insideSize\<rparr> in
                        if entries ! 0 = ''both'' then
                          (case AddSafe ret (entry\<lparr>Isuid := True, Isgid := True\<rparr>) of
                             (Some e, ret') \<Rightarrow> Inl e
                           | (None, ret') \<Rightarrow> parseRawLines AddSafe ret' lines)
                        else if entries ! 0 = ''uid'' then
                          (case AddSafe ret (entry\<lparr>Isuid := True\<rparr>) of
                             (Some e, ret') \<Rightarrow> Inl e
                           | (None, ret') \<Rightarrow> parseRawLines AddSafe ret' lines)
                        else if entries ! 0 = ''gid'' then
                          (case AddSafe ret (entry\<lparr>Isgid := True\<rparr>) of
                             (Some e, ret') \<Rightarrow> Inl e
                           | (None, ret') \<Rightarrow> parseRawLines AddSafe ret' lines)
                        else Inl (Errorf (''invalid raw.idmap type '' @ line)))))))"

definition parseRawIdmap ::
  "(IdmapSet \<Rightarrow> IdmapEntry \<Rightarrow> error option \<times> IdmapSet) \<Rightarrow> string \<Rightarrow> error + IdmapSet" where
  "parseRawIdmap AddSafe value = parseRawLines AddSafe [] (split_on (CHR 0x0A) value)"

text \<open>
  The loop that adds the raw entries (in the non-isolated branch and in the closure
  \<^verbatim>\<open>mkIdmap\<close>): only \<^verbatim>\<open>idmap.ErrHostIdIsSubId\<close> stops it.
\<close>

fun addRawMaps ::
  "(IdmapSet \<Rightarrow> IdmapEntry \<Rightarrow> error option \<times> IdmapSet) \<Rightarrow> IdmapSet \<Rightarrow> IdmapEntry list
   \<Rightarrow> error + IdmapSet" where
  "addRawMaps AddSafe s [] = Inr s"
| "addRawMaps AddSafe s (ent # ents) =
     (case AddSafe s ent of
        (Some e, s') \<Rightarrow> if e = ErrHostIdIsSubId then Inl e else addRawMaps AddSafe s' ents
      | (None, s') \<Rightarrow> addRawMaps AddSafe s' ents)"

definition mkIdmap ::
  "(IdmapSet \<Rightarrow> IdmapEntry \<Rightarrow> error option \<times> IdmapSet) \<Rightarrow> IdmapEntry list \<Rightarrow> int \<Rightarrow> int
   \<Rightarrow> error + IdmapSet" where
  "mkIdmap AddSafe rawMaps offset size' =
     addRawMaps AddSafe
       [\<lparr>Isuid = True, Isgid = False, Hostid = offset, Nsid = 0, Maprange = size'\<rparr>,
        \<lparr>Isuid = False, Isgid = True, Hostid = offset, Nsid = 0, Maprange = size'\<rparr>]
       rawMaps"

text \<open>
  The loop over the loaded containers that fills \<^verbatim>\<open>mapentries\<close>: the container
  itself, privileged containers and containers that are not isolated are skipped; the
  base is \<^verbatim>\<open>volatile.idmap.base\<close> (0 when unset).
\<close>

fun collectEntries :: "IdmapSet \<Rightarrow> string \<Rightarrow> container list \<Rightarrow> error + IdmapEntry list" where
  "collectEntries hostIdmap cName [] = Inr []"
| "collectEntries hostIdmap cName (c # cts) =
     (if name c = cName then collectEntries hostIdmap cName cts
      else if IsPrivileged c then collectEntries hostIdmap cName cts
      else if \<not> IsTrue (cfg (expandedConfig c) ''security.idmap.isolated'')
      then collectEntries hostIdmap cName cts
      else
        (case (if cfg (expandedConfig c) ''volatile.idmap.base'' \<noteq> []
               then Atoi (cfg (expandedConfig c) ''volatile.idmap.base'') else Some 0) of
           None \<Rightarrow> Inl (External ''strconv.ParseInt'')
         | Some cBase \<Rightarrow>
             (case idmapSize hostIdmap (cfg (expandedConfig c) ''security.idmap.isolated'')
                     (cfg (expandedConfig c) ''security.idmap.size'') of
                Inl e \<Rightarrow> Inl e
              | Inr cSize \<Rightarrow>
                  (case collectEntries hostIdmap cName cts of
                     Inl e \<Rightarrow> Inl e
                   | Inr rest \<Rightarrow>
                       Inr (\<lparr>Isuid = False, Isgid = False, Hostid = cBase, Nsid = 0,
                             Maprange = cSize\<rparr> # rest)))))"

text \<open>
  The loop \<^verbatim>\<open>for i := range mapentries\<close>, on the index and the running offset.
  \<open>Inl\<close> is an offset returned from inside the loop, \<open>Inr\<close> the offset the loop
  ends with. All sums are 64-bit.
\<close>

definition endOf :: "IdmapEntry \<Rightarrow> int" where
  "endOf m = add64 (Hostid m) (Maprange m)"

function scanEntries :: "int \<Rightarrow> IdmapEntry list \<Rightarrow> nat \<Rightarrow> int \<Rightarrow> int + int" where
  "scanEntries size' mapentries i offset =
     (if i < length mapentries then
        (if i = 0 then
           (if Hostid (mapentries ! 0) < add64 offset size'
            then scanEntries size' mapentries (i + 1) (endOf (mapentries ! 0))
            else Inl offset)
         else if endOf (mapentries ! (i - 1)) > offset
         then scanEntries size' mapentries (i + 1) (endOf (mapentries ! (i - 1)))
         else if add64 (endOf (mapentries ! (i - 1))) size' < Hostid (mapentries ! i)
         then Inl (endOf (mapentries ! (i - 1)))
         else scanEntries size' mapentries (i + 1) (endOf (mapentries ! i)))
      else Inr offset)"
  by pat_completeness auto
termination
  by (relation "measure (\<lambda>(size', ms, i, offset). length ms - i)") auto

declare scanEntries.simps [simp del]

definition notEnough :: error where
  "notEnough = Errorf ''Not enough uid/gid available for the container''"

text \<open>
  \<^verbatim>\<open>findIdmap\<close>. The parameters stand for what the sources do not contain: \<open>AddSafe\<close>
  as above, \<open>sortByHostid\<close> for \<^verbatim>\<open>sort.Sort\<close> on \<^verbatim>\<open>idmap.ByHostid\<close>, the host's id
  map, and the result of \<^verbatim>\<open>containerLoadAll\<close>. Reading \<^verbatim>\<open>Idmap[0]\<close> of an empty
  host map is a panic. The three places that call \<^verbatim>\<open>mkIdmap\<close> and return are the
  three inner \<open>case\<close> expressions.
\<close>

definition findIdmap ::
  "(IdmapSet \<Rightarrow> IdmapEntry \<Rightarrow> error option \<times> IdmapSet) \<Rightarrow> (IdmapEntry list \<Rightarrow> IdmapEntry list)
   \<Rightarrow> IdmapSet \<Rightarrow> error + container list
   \<Rightarrow> string \<Rightarrow> string \<Rightarrow> string \<Rightarrow> string \<Rightarrow> string \<Rightarrow> error + (IdmapSet \<times> int)" where
  "findIdmap AddSafe sortByHostid hostIdmap containerLoadAll cName isolatedStr configBase
       configSize rawIdmap =
     (case parseRawIdmap AddSafe rawIdmap of
        Inl e \<Rightarrow> Inl e
      | Inr rawMaps \<Rightarrow>
          if \<not> IsTrue isolatedStr then
            (case addRawMaps AddSafe hostIdmap rawMaps of
               Inl e \<Rightarrow> Inl e
             | Inr newIdmapset \<Rightarrow> Inr (newIdmapset, 0))
          else
            (case idmapSize hostIdmap isolatedStr configSize of
               Inl e \<Rightarrow> Inl e
             | Inr size' \<Rightarrow>
                 if configBase \<noteq> [] then
                   (case Atoi configBase of
                      None \<Rightarrow> Inl (External ''strconv.ParseInt'')
                    | Some offset \<Rightarrow>
                        (case mkIdmap AddSafe rawMaps offset size' of
                           Inl e \<Rightarrow> Inl e
                         | Inr s \<Rightarrow> Inr (s, offset)))
                 else
                   (case containerLoadAll of
                      Inl e \<Rightarrow> Inl e
                    | Inr cts \<Rightarrow>
                        (case hostIdmap of
                           [] \<Rightarrow> Inl (Panic ''index out of range'')
                         | h # hs \<Rightarrow>
                             (case collectEntries hostIdmap cName cts of
                                Inl e \<Rightarrow> Inl e
                              | Inr mapentries \<Rightarrow>
                                  (case scanEntries size' (sortByHostid mapentries) 0
                                          (add64 (Hostid h) 65536) of
                                     Inl offset \<Rightarrow>
                                       (case mkIdmap AddSafe rawMaps offset size' of
                                          Inl e \<Rightarrow> Inl e
                                        | Inr s \<Rightarrow> Inr (s, offset))
                                   | Inr offset \<Rightarrow>
                                       if add64 offset size' < add64 (Hostid h) (Maprange h)
                                       then
                                         (case mkIdmap AddSafe rawMaps offset size' of
                                            Inl e \<Rightarrow> Inl e
                                          | Inr s \<Rightarrow> Inr (s, offset))
                                       else Inl notEnough))))))"

subsection \<open>The allocation in closed form\<close>

text \<open>
  The end of a recorded range, computed without wrap-around; the ranges the results
  speak about (non-empty, below \<open>2\<^sup>6\<^sup>2\<close>); disjointness of two ranges.
\<close>

definition rangeEnd :: "IdmapEntry \<Rightarrow> int" where
  "rangeEnd m = Hostid m + Maprange m"

definition bounded :: "IdmapEntry \<Rightarrow> bool" where
  "bounded m = (0 \<le> Hostid m \<and> 0 < Maprange m \<and> Hostid m + Maprange m < 2 ^ 62)"

definition disjointRanges :: "IdmapEntry \<Rightarrow> IdmapEntry \<Rightarrow> bool" where
  "disjointRanges a b = (rangeEnd a \<le> Hostid b \<or> rangeEnd b \<le> Hostid a)"

text \<open>
  What the scan computes: the end of the first recorded range followed by a gap
  strictly larger than the size (\<open>Inl\<close>), else the end of the last range (\<open>Inr\<close>);
  then the first fit: the host base plus 65536 when the first recorded range starts at
  or after that plus the size, else the gap found, else the end of the last range when
  the new range ends strictly below the end of the host's range.
\<close>

fun firstGap :: "int \<Rightarrow> IdmapEntry list \<Rightarrow> int + int" where
  "firstGap sz [] = Inr 0"
| "firstGap sz [a] = Inr (rangeEnd a)"
| "firstGap sz (a # b # rest) =
     (if rangeEnd a + sz < Hostid b then Inl (rangeEnd a) else firstGap sz (b # rest))"

definition withinHost :: "int \<Rightarrow> int \<Rightarrow> int \<Rightarrow> int \<Rightarrow> int option" where
  "withinHost hb hr sz off = (if off + sz < hb + hr then Some off else None)"

definition firstFit :: "int \<Rightarrow> int \<Rightarrow> int \<Rightarrow> IdmapEntry list \<Rightarrow> int option" where
  "firstFit hb hr sz ms =
     (if ms = [] then withinHost hb hr sz (hb + 65536)
      else if Hostid (hd ms) < hb + 65536 + sz then
        (case firstGap sz ms of
           Inl off \<Rightarrow> Some off
         | Inr off \<Rightarrow> withinHost hb hr sz off)
      else Some (hb + 65536))"

text \<open>
  The claim's reading of a free place: an offset at or above the host base plus 65536
  whose range ends within the host's range and overlaps no recorded range.
\<close>

definition fitsFree :: "int \<Rightarrow> int \<Rightarrow> int \<Rightarrow> IdmapEntry list \<Rightarrow> int \<Rightarrow> bool" where
  "fitsFree hb hr sz es off =
     (hb + 65536 \<le> off \<and> off + sz \<le> hb + hr
      \<and> list_all (\<lambda>m. off + sz \<le> Hostid m \<or> rangeEnd m \<le> off) es)"

text \<open>Concrete inputs: a host map from 1000000 of size 1000000000, and isolated
  containers with a recorded base and size.\<close>

definition appendEntry :: "IdmapSet \<Rightarrow> IdmapEntry \<Rightarrow> error option \<times> IdmapSet" where
  "appendEntry s e = (None, s @ [e])"

definition hostMap :: IdmapSet where
  "hostMap = [\<lparr>Isuid = True, Isgid = False, Hostid = 1000000, Nsid = 0, Maprange = 1000000000\<rparr>,
              \<lparr>Isuid = False, Isgid = True, Hostid = 1000000, Nsid = 0, Maprange = 1000000000\<rparr>]"

definition isolatedAt :: "string \<Rightarrow> string \<Rightarrow> string \<Rightarrow> container" where
  "isolatedAt n base sz =
     \<lparr>name = n, isSnapshot = False,
      expandedConfig = [''security.idmap.isolated'' \<mapsto> ''true'', ''volatile.idmap.base'' \<mapsto> base,
                        ''security.idmap.size'' \<mapsto> sz],
      localConfig = Map.empty\<rparr>"

definition recorded :: "int \<Rightarrow> int \<Rightarrow> IdmapEntry" where
  "recorded base sz = \<lparr>Isuid = False, Isgid = False, Hostid = base, Nsid = 0, Maprange = sz\<rparr>"

definition allocated :: "int \<Rightarrow> int \<Rightarrow> IdmapSet" where
  "allocated off sz =
     [\<lparr>Isuid = True, Isgid = False, Hostid = off, Nsid = 0, Maprange = sz\<rparr>,
      \<lparr>Isuid = False, Isgid = True, Hostid = off, Nsid = 0, Maprange = sz\<rparr>]"

subsection \<open>Results on findIdmap\<close>

lemma endOf_bounded: "bounded m \<Longrightarrow> endOf m = rangeEnd m"
  by (simp add: endOf_def rangeEnd_def bounded_def add64_id)

lemma rangeEnd_bounds: "bounded m \<Longrightarrow> 0 < rangeEnd m \<and> rangeEnd m < 2 ^ 62"
  by (simp add: rangeEnd_def bounded_def)

lemma scanEntries_tail:
  assumes bd: "\<forall>m\<in>set ms. bounded m" and sz: "0 \<le> sz" "sz < 2 ^ 62"
  shows "1 \<le> i \<Longrightarrow> i \<le> length ms \<Longrightarrow> off = rangeEnd (ms ! (i - 1))
         \<Longrightarrow> scanEntries sz ms i off = firstGap sz (drop (i - 1) ms)"
proof (induction "length ms - i" arbitrary: i off)
  case 0
  then have i: "i = length ms" by simp
  with 0 have "drop (i - 1) ms = [ms ! (i - 1)]"
    by (metis Cons_nth_drop_Suc One_nat_def Suc_pred diff_less drop_all le_refl less_le_trans
        zero_less_one)
  with 0 i show ?case by (subst scanEntries.simps) simp
next
  case (Suc n)
  then have lt: "i < length ms" and pos: "i \<noteq> 0" by simp_all
  let ?a = "ms ! (i - 1)" and ?b = "ms ! i"
  have mem: "?a \<in> set ms" "?b \<in> set ms" using lt by simp_all
  with bd have ba: "bounded ?a" and bb: "bounded ?b" by blast+
  have ea: "endOf ?a = rangeEnd ?a" and eb: "endOf ?b = rangeEnd ?b"
    using ba bb by (simp_all add: endOf_bounded)
  have dr: "drop (i - 1) ms = ?a # ?b # drop (i + 1) ms"
    using lt pos
    by (metis Cons_nth_drop_Suc One_nat_def Suc_eq_plus1 Suc_pred less_imp_diff_less
        not_gr_zero)
  have sum: "add64 (rangeEnd ?a) sz = rangeEnd ?a + sz"
    using rangeEnd_bounds [OF ba] sz by (intro add64_id) simp_all
  have IH: "scanEntries sz ms (i + 1) (rangeEnd ?b) = firstGap sz (drop i ms)"
    using Suc.hyps(1) [of "i + 1" "rangeEnd ?b"] Suc.hyps(2) lt by simp
  have dr': "drop i ms = ?b # drop (i + 1) ms"
    using lt by (simp add: Cons_nth_drop_Suc)
  show ?case
    using lt pos Suc.prems(3) ea eb sum IH dr dr'
    by (subst scanEntries.simps) simp
qed

lemma scanEntries_start:
  assumes bd: "\<forall>m\<in>set ms. bounded m" and sz: "0 \<le> sz" "sz < 2 ^ 62"
    and off: "0 \<le> off" "off < 2 ^ 62"
  shows "scanEntries sz ms 0 off =
     (if ms = [] then Inr off
      else if Hostid (hd ms) < off + sz then firstGap sz ms
      else Inl off)"
proof (cases ms)
  case Nil
  then show ?thesis by (subst scanEntries.simps) simp
next
  case (Cons a rest)
  have sum: "add64 off sz = off + sz"
    using sz off by (intro add64_id) simp_all
  have ba: "bounded a" using bd Cons by simp
  have tl: "scanEntries sz ms 1 (rangeEnd a) = firstGap sz ms"
    using scanEntries_tail [OF bd sz, of 1 "rangeEnd a"] Cons by simp
  show ?thesis
    using Cons sum tl endOf_bounded [OF ba]
    by (subst scanEntries.simps) simp
qed

lemma firstGap_Inl:
  assumes "sorted (map Hostid ms)" "sorted (map rangeEnd ms)" "0 \<le> sz"
    and "firstGap sz ms = Inl off"
  shows "off \<in> rangeEnd ` set ms \<and> (\<exists>b\<in>set ms. off + sz < Hostid b)
         \<and> (\<forall>m\<in>set ms. off + sz \<le> Hostid m \<or> rangeEnd m \<le> off)"
  using assms
proof (induction sz ms rule: firstGap.induct)
  case (1 sz)
  then show ?case by simp
next
  case (2 sz a)
  then show ?case by simp
next
  case (3 sz a b rest)
  show ?case
  proof (cases "rangeEnd a + sz < Hostid b")
    case True
    with 3(5) have off: "off = rangeEnd a" by simp
    have "\<forall>m\<in>set (b # rest). Hostid b \<le> Hostid m"
      using 3(2) by auto
    with True off show ?thesis by fastforce
  next
    case False
    with 3(5) have fg: "firstGap sz (b # rest) = Inl off" by simp
    have s1: "sorted (map Hostid (b # rest))" and s2: "sorted (map rangeEnd (b # rest))"
      using 3(2,3) by simp_all
    from 3(1) [OF False s1 s2 3(4) fg]
    have ih: "off \<in> rangeEnd ` set (b # rest)"
      "\<exists>b\<in>set (b # rest). off + sz < Hostid b"
      "\<forall>m\<in>set (b # rest). off + sz \<le> Hostid m \<or> rangeEnd m \<le> off"
      by blast+
    have "\<forall>m\<in>set (b # rest). rangeEnd a \<le> rangeEnd m"
      using 3(3) by auto
    with ih(1) have "rangeEnd a \<le> off" by auto
    with ih show ?thesis by auto
  qed
qed

lemma firstGap_Inr:
  assumes "sorted (map rangeEnd ms)" "ms \<noteq> []" "firstGap sz ms = Inr off"
  shows "off \<in> rangeEnd ` set ms \<and> (\<forall>m\<in>set ms. rangeEnd m \<le> off)"
  using assms
proof (induction sz ms rule: firstGap.induct)
  case (1 sz)
  then show ?case by simp
next
  case (2 sz a)
  then show ?case by simp
next
  case (3 sz a b rest)
  show ?case
  proof (cases "rangeEnd a + sz < Hostid b")
    case True
    with 3(4) show ?thesis by simp
  next
    case False
    with 3(4) have fg: "firstGap sz (b # rest) = Inr off" by simp
    have s2: "sorted (map rangeEnd (b # rest))" using 3(2) by simp
    from 3(1) [OF False s2 _ fg]
    have ih: "off \<in> rangeEnd ` set (b # rest)" "\<forall>m\<in>set (b # rest). rangeEnd m \<le> off"
      by simp_all
    have "rangeEnd a \<le> rangeEnd b" using 3(2) by simp
    with ih show ?thesis by auto
  qed
qed

lemma firstGap_Inr_mem:
  "ms \<noteq> [] \<Longrightarrow> firstGap sz ms = Inr off \<Longrightarrow> off \<in> rangeEnd ` set ms"
  by (induction sz ms rule: firstGap.induct) (auto split: if_splits)

lemma disjoint_sorted_ends:
  assumes st: "sorted (map Hostid ms)" and ds: "distinct ms"
    and pw: "\<forall>a\<in>set ms. \<forall>b\<in>set ms. a \<noteq> b \<longrightarrow> disjointRanges a b"
    and bd: "\<forall>m\<in>set ms. bounded m"
  shows "sorted (map rangeEnd ms)"
proof (unfold sorted_iff_nth_mono, intro allI impI)
  fix i j assume ij: "i \<le> j" and j: "j < length (map rangeEnd ms)"
  then have jl: "j < length ms" and il: "i < length ms" by simp_all
  show "map rangeEnd ms ! i \<le> map rangeEnd ms ! j"
  proof (cases "i = j")
    case True
    then show ?thesis by simp
  next
    case False
    with ds il jl have ne: "ms ! i \<noteq> ms ! j" by (simp add: nth_eq_iff_index_eq)
    have mi: "ms ! i \<in> set ms" and mj: "ms ! j \<in> set ms" using il jl by simp_all
    with pw ne have dj: "disjointRanges (ms ! i) (ms ! j)" by blast
    have le: "Hostid (ms ! i) \<le> Hostid (ms ! j)"
      using st ij jl il sorted_nth_mono [of "map Hostid ms" i j] by simp
    have "Hostid (ms ! j) < rangeEnd (ms ! j)"
      using bd mj by (auto simp: bounded_def rangeEnd_def)
    with dj le have "rangeEnd (ms ! i) \<le> rangeEnd (ms ! j)"
      by (auto simp: disjointRanges_def)
    with il jl show ?thesis by simp
  qed
qed

lemma firstFit_sound:
  assumes st: "sorted (map Hostid ms)" and en: "sorted (map rangeEnd ms)"
    and bd: "\<forall>m\<in>set ms. bounded m"
    and lo: "\<forall>m\<in>set ms. hb + 65536 \<le> Hostid m \<and> rangeEnd m \<le> hb + hr"
    and sz: "0 \<le> sz" and ff: "firstFit hb hr sz ms = Some off"
  shows "hb + 65536 \<le> off \<and> off + sz < hb + hr
         \<and> (\<forall>m\<in>set ms. off + sz \<le> Hostid m \<or> rangeEnd m \<le> off)"
proof (cases "ms = []")
  case True
  with ff show ?thesis by (auto simp: firstFit_def withinHost_def split: if_splits)
next
  case ne: False
  have above: "hb + 65536 \<le> x" if "x \<in> rangeEnd ` set ms" for x
    using that bd lo by (fastforce simp: bounded_def rangeEnd_def)
  have below: "Hostid m < hb + hr" if "m \<in> set ms" for m
    using that bd lo by (fastforce simp: bounded_def rangeEnd_def)
  show ?thesis
  proof (cases "Hostid (hd ms) < hb + 65536 + sz")
    case False
    with ne ff have off: "off = hb + 65536" by (simp add: firstFit_def)
    have "\<forall>m\<in>set ms. Hostid (hd ms) \<le> Hostid m"
      using st ne by (cases ms) auto
    with False off have dj: "\<forall>m\<in>set ms. off + sz \<le> Hostid m" by fastforce
    have "hd ms \<in> set ms" using ne by simp
    from below [OF this] False off have "off + sz < hb + hr" by simp
    with off dj show ?thesis by simp
  next
    case True
    show ?thesis
    proof (cases "firstGap sz ms")
      case (Inl x)
      with ne True ff have o: "off = x" by (simp add: firstFit_def)
      from firstGap_Inl [OF st en sz Inl] o
      have g: "off \<in> rangeEnd ` set ms" "\<exists>b\<in>set ms. off + sz < Hostid b"
        "\<forall>m\<in>set ms. off + sz \<le> Hostid m \<or> rangeEnd m \<le> off"
        by simp_all
      from g(2) below have "off + sz < hb + hr" by fastforce
      with g above [OF g(1)] show ?thesis by simp
    next
      case (Inr x)
      with ne True ff have o: "off = x" "off + sz < hb + hr"
        by (auto simp: firstFit_def withinHost_def split: if_splits)
      with firstGap_Inr [OF en ne Inr] above show ?thesis by auto
    qed
  qed
qed

lemma findIdmap_scan_result:
  assumes raw: "parseRawIdmap AddSafe rawIdmap = Inr rawMaps"
    and iso: "IsTrue isolatedStr" and nobase: "configBase = []"
    and isz: "idmapSize hostIdmap isolatedStr configSize = Inr sz"
    and load: "containerLoadAll = Inr cts" and host: "hostIdmap = h # hs"
    and col: "collectEntries hostIdmap cName cts = Inr es"
    and perm: "set (sortByHostid es) = set es"
    and bd: "\<forall>m\<in>set es. bounded m"
    and sz: "0 \<le> sz" "sz < 2 ^ 62"
    and hb: "0 \<le> Hostid h" "Hostid h < 2 ^ 61" "0 \<le> Maprange h" "Maprange h < 2 ^ 61"
  shows "findIdmap AddSafe sortByHostid hostIdmap containerLoadAll cName isolatedStr configBase
           configSize rawIdmap =
         (case firstFit (Hostid h) (Maprange h) sz (sortByHostid es) of
            None \<Rightarrow> Inl notEnough
          | Some off \<Rightarrow>
              (case mkIdmap AddSafe rawMaps off sz of
                 Inl e \<Rightarrow> Inl e
               | Inr s \<Rightarrow> Inr (s, off)))"
proof -
  let ?ms = "sortByHostid es"
  let ?off0 = "Hostid h + 65536"
  have bd': "\<forall>m\<in>set ?ms. bounded m" using bd perm by simp
  have off0: "add64 (Hostid h) 65536 = ?off0"
    using hb by (intro add64_id) simp_all
  have hend: "add64 (Hostid h) (Maprange h) = Hostid h + Maprange h"
    using hb by (intro add64_id) simp_all
  have scan: "scanEntries sz ?ms 0 ?off0 =
     (if ?ms = [] then Inr ?off0
      else if Hostid (hd ?ms) < ?off0 + sz then firstGap sz ?ms
      else Inl ?off0)"
    using hb by (intro scanEntries_start [OF bd' sz]) simp_all
  have unfold: "findIdmap AddSafe sortByHostid hostIdmap containerLoadAll cName isolatedStr
           configBase configSize rawIdmap =
     (case scanEntries sz ?ms 0 ?off0 of
        Inl off \<Rightarrow>
          (case mkIdmap AddSafe rawMaps off sz of Inl e \<Rightarrow> Inl e | Inr s \<Rightarrow> Inr (s, off))
      | Inr off \<Rightarrow>
          if add64 off sz < Hostid h + Maprange h
          then (case mkIdmap AddSafe rawMaps off sz of Inl e \<Rightarrow> Inl e | Inr s \<Rightarrow> Inr (s, off))
          else Inl notEnough)"
    using raw iso nobase isz load col
    by (simp add: findIdmap_def host off0 hend cong: sum.case_cong)
  show ?thesis
  proof (cases "?ms = []")
    case True
    have s0: "add64 ?off0 sz = ?off0 + sz" using hb sz by (intro add64_id) simp_all
    have sc: "scanEntries sz ?ms 0 ?off0 = Inr ?off0" using scan True by simp
    have ff: "firstFit (Hostid h) (Maprange h) sz ?ms =
        (if ?off0 + sz < Hostid h + Maprange h then Some ?off0 else None)"
      using True by (simp add: firstFit_def withinHost_def)
    show ?thesis unfolding unfold sc ff by (simp add: s0)
  next
    case ne: False
    show ?thesis
    proof (cases "Hostid (hd ?ms) < ?off0 + sz")
      case False
      have sc: "scanEntries sz ?ms 0 ?off0 = Inl ?off0" using scan ne False by simp
      have ff: "firstFit (Hostid h) (Maprange h) sz ?ms = Some ?off0"
        using ne False by (simp add: firstFit_def)
      show ?thesis unfolding unfold sc ff by simp
    next
      case True
      have sc: "scanEntries sz ?ms 0 ?off0 = firstGap sz ?ms" using scan ne True by simp
      show ?thesis
      proof (cases "firstGap sz ?ms")
        case (Inl x)
        have ff: "firstFit (Hostid h) (Maprange h) sz ?ms = Some x"
          using ne True Inl by (simp add: firstFit_def)
        show ?thesis unfolding unfold sc ff Inl by simp
      next
        case (Inr x)
        from firstGap_Inr_mem [OF ne Inr] obtain m where "m \<in> set ?ms" "x = rangeEnd m"
          by auto
        with bd' rangeEnd_bounds [of m] have "0 < x" "x < 2 ^ 62" by auto
        with sz have s0: "add64 x sz = x + sz" by (intro add64_id) simp_all
        have ff: "firstFit (Hostid h) (Maprange h) sz ?ms =
            (if x + sz < Hostid h + Maprange h then Some x else None)"
          using ne True Inr by (simp add: firstFit_def withinHost_def)
        show ?thesis unfolding unfold sc ff Inr by (simp add: s0)
      qed
    qed
  qed
qed

lemma ex_exact_gap:
  "findIdmap appendEntry (sort_key Hostid) hostMap
     (Inr [isolatedAt ''c1'' ''1065536'' ''auto'', isolatedAt ''c3'' ''1196608'' ''auto''])
     ''new'' ''true'' [] [] [] = Inr (allocated 1262144 65536, 1262144)"
  by code_simp

lemma ex_collect:
  "collectEntries hostMap ''new''
     [isolatedAt ''c1'' ''1065536'' ''auto'', isolatedAt ''c3'' ''1196608'' ''auto'']
   = Inr [recorded 1065536 65536, recorded 1196608 65536]"
  by code_simp

lemma ex_fits:
  "fitsFree 1000000 1000000000 65536 [recorded 1065536 65536, recorded 1196608 65536] 1131072"
  by code_simp

lemma ex_nested:
  "findIdmap appendEntry (sort_key Hostid) hostMap
     (Inr [isolatedAt ''big'' ''1065536'' ''655360'', isolatedAt ''c2'' ''1131072'' ''auto''])
     ''new'' ''true'' [] [] [] = Inr (allocated 1196608 65536, 1196608)"
  by code_simp

lemma ex_nested_collect:
  "collectEntries hostMap ''new''
     [isolatedAt ''big'' ''1065536'' ''655360'', isolatedAt ''c2'' ''1131072'' ''auto'']
   = Inr [recorded 1065536 655360, recorded 1131072 65536]"
  by code_simp

lemma ex_nested_overlap:
  "\<not> fitsFree 1000000 1000000000 65536 [recorded 1065536 655360, recorded 1131072 65536] 1196608"
  by code_simp

lemma collectEntries_records:
  assumes "collectEntries hostIdmap cName cts = Inr es"
  shows "es = map (\<lambda>c. \<lparr>Isuid = False, Isgid = False,
                         Hostid = (if cfg (expandedConfig c) ''volatile.idmap.base'' \<noteq> []
                                   then the (Atoi (cfg (expandedConfig c) ''volatile.idmap.base''))
                                   else 0),
                         Nsid = 0,
                         Maprange = (if cfg (expandedConfig c) ''security.idmap.size'' = []
                                        \<or> cfg (expandedConfig c) ''security.idmap.size'' = ''auto''
                                     then 65536
                                     else the (Atoi (cfg (expandedConfig c) ''security.idmap.size'')))\<rparr>)
              (filter (\<lambda>c. name c \<noteq> cName \<and> \<not> IsPrivileged c
                            \<and> IsTrue (cfg (expandedConfig c) ''security.idmap.isolated'')) cts)"
  using assms
proof (induction cts arbitrary: es)
  case Nil
  then show ?case by simp
next
  case (Cons c cts)
  show ?case
  proof (cases "name c \<noteq> cName \<and> \<not> IsPrivileged c
                \<and> IsTrue (cfg (expandedConfig c) ''security.idmap.isolated'')")
    case False
    with Cons.prems have "collectEntries hostIdmap cName cts = Inr es"
      by (auto split: if_splits)
    from Cons.IH [OF this] False show ?thesis by auto
  next
    case True
    with Cons.prems obtain rest where
      rest: "collectEntries hostIdmap cName cts = Inr rest"
      and es: "es = \<lparr>Isuid = False, Isgid = False,
                 Hostid = (if cfg (expandedConfig c) ''volatile.idmap.base'' \<noteq> []
                           then the (Atoi (cfg (expandedConfig c) ''volatile.idmap.base''))
                           else 0),
                 Nsid = 0,
                 Maprange = (if cfg (expandedConfig c) ''security.idmap.size'' = []
                                \<or> cfg (expandedConfig c) ''security.idmap.size'' = ''auto''
                             then 65536
                             else the (Atoi (cfg (expandedConfig c) ''security.idmap.size'')))\<rparr>
               # rest"
      by (auto simp: idmapSize_def split: option.splits sum.splits if_splits)
    from Cons.IH [OF rest] es True show ?thesis by simp
  qed
qed

lemma ex_first_exact:
  "findIdmap appendEntry (sort_key Hostid) hostMap
     (Inr [isolatedAt ''c3'' ''1131072'' ''auto''])
     ''new'' ''true'' [] [] [] = Inr (allocated 1065536 65536, 1065536)"
  by code_simp

lemma ex_explicit_base:
  "findIdmap appendEntry (sort_key Hostid) hostMap
     (Inr [isolatedAt ''c1'' ''1065536'' ''auto''])
     ''new'' ''true'' ''1065536'' [] [] = Inr (allocated 1065536 65536, 1065536)"
  by code_simp

lemma ex_bad_idmap:
  "idmapSize [] ''false'' [] = Inl (Errorf ''bad initial idmap: &{[]}'')"
  "idmapSize (hostMap @ hostMap) [] ''auto'' =
     Inl (Errorf ''bad initial idmap: &{[{true false 1000000 0 1000000000} {false true 1000000 0 1000000000} {true false 1000000 0 1000000000} {false true 1000000 0 1000000000}]}'')"
  by code_simp+

text \<open>
  When the records are distinct, non-empty, pairwise disjoint and lie in the host's
  range at or above the host base plus 65536 (and ids are small enough for 64-bit sums
  not to wrap), a returned offset is at or above the host base plus 65536, its range
  ends strictly below the end of the host's range, and it overlaps no recorded range.
\<close>

lemma findIdmap_disjoint:
  assumes raw: "parseRawIdmap AddSafe rawIdmap = Inr rawMaps"
    and iso: "IsTrue isolatedStr" and nobase: "configBase = []"
    and isz: "idmapSize hostIdmap isolatedStr configSize = Inr sz"
    and load: "containerLoadAll = Inr cts" and host: "hostIdmap = h # hs"
    and col: "collectEntries hostIdmap cName cts = Inr es"
    and srt: "sorted (map Hostid (sortByHostid es))" "mset (sortByHostid es) = mset es"
    and bd: "\<forall>m\<in>set es. bounded m"
    and sz: "0 \<le> sz" "sz < 2 ^ 62"
    and hb: "0 \<le> Hostid h" "Hostid h < 2 ^ 61" "0 \<le> Maprange h" "Maprange h < 2 ^ 61"
    and ds: "distinct es"
    and pw: "\<forall>a\<in>set es. \<forall>b\<in>set es. a \<noteq> b \<longrightarrow> disjointRanges a b"
    and lo: "\<forall>m\<in>set es. Hostid h + 65536 \<le> Hostid m \<and> rangeEnd m \<le> Hostid h + Maprange h"
  shows "findIdmap AddSafe sortByHostid hostIdmap containerLoadAll cName isolatedStr configBase
           configSize rawIdmap =
         (case firstFit (Hostid h) (Maprange h) sz (sortByHostid es) of
            None \<Rightarrow> Inl notEnough
          | Some off \<Rightarrow>
              (case mkIdmap AddSafe rawMaps off sz of
                 Inl e \<Rightarrow> Inl e
               | Inr s \<Rightarrow> Inr (s, off)))
       \<and> (\<forall>s off. findIdmap AddSafe sortByHostid hostIdmap containerLoadAll cName isolatedStr
             configBase configSize rawIdmap = Inr (s, off) \<longrightarrow>
           Hostid h + 65536 \<le> off \<and> off + sz < Hostid h + Maprange h
           \<and> (\<forall>m\<in>set es. off + sz \<le> Hostid m \<or> rangeEnd m \<le> off))"
proof -
  let ?ms = "sortByHostid es"
  have perm: "set ?ms = set es" using srt(2) by (rule mset_eq_setD)
  have dms: "distinct ?ms" using srt(2) ds by (metis mset_eq_imp_distinct_iff)
  have char: "findIdmap AddSafe sortByHostid hostIdmap containerLoadAll cName isolatedStr
           configBase configSize rawIdmap =
         (case firstFit (Hostid h) (Maprange h) sz ?ms of
            None \<Rightarrow> Inl notEnough
          | Some off \<Rightarrow>
              (case mkIdmap AddSafe rawMaps off sz of
                 Inl e \<Rightarrow> Inl e
               | Inr s \<Rightarrow> Inr (s, off)))"
    by (rule findIdmap_scan_result
        [where sortByHostid = sortByHostid and es = es,
          OF raw iso nobase isz load host col perm bd sz hb])
  have en: "sorted (map rangeEnd ?ms)"
    using srt(1) dms pw bd perm by (intro disjoint_sorted_ends) simp_all
  have sound: "Hostid h + 65536 \<le> off \<and> off + sz < Hostid h + Maprange h
           \<and> (\<forall>m\<in>set es. off + sz \<le> Hostid m \<or> rangeEnd m \<le> off)"
    if "firstFit (Hostid h) (Maprange h) sz ?ms = Some off" for off
    using firstFit_sound [OF srt(1) en _ _ sz(1) that] bd lo perm by simp
  have "firstFit (Hostid h) (Maprange h) sz ?ms = Some off"
    if "findIdmap AddSafe sortByHostid hostIdmap containerLoadAll cName isolatedStr
             configBase configSize rawIdmap = Inr (s, off)" for s off
    using that unfolding char by (auto split: option.splits sum.splits)
  with sound char show ?thesis by blast
qed

text \<open>
  C1. The offset returned is claimed to be the smallest one at or above the host base
  plus 65536 whose range overlaps no recorded range and fits in the host's range. With
  recorded ranges at 1065536 and 1196608 (size 65536 each) on a host range from 1000000
  of size 1000000000, the place 1131072 fits exactly between the two records, and
  \<^verbatim>\<open>findIdmap\<close> returns 1262144: inside the loop a gap is taken only when
  \<^verbatim>\<open>offset+size < mapentries[i].Hostid\<close>. The first iteration of the same loop tests
  \<^verbatim>\<open>mapentries[0].Hostid < offset+size\<close> and so takes an exact fit: with the single
  record 1131072 the result is 1065536.
\<close>

theorem findIdmap_skips_exact_gap:
  "findIdmap appendEntry (sort_key Hostid) hostMap
     (Inr [isolatedAt ''c1'' ''1065536'' ''auto'', isolatedAt ''c3'' ''1196608'' ''auto''])
     ''new'' ''true'' [] [] [] = Inr (allocated 1262144 65536, 1262144)
   \<and> collectEntries hostMap ''new''
        [isolatedAt ''c1'' ''1065536'' ''auto'', isolatedAt ''c3'' ''1196608'' ''auto'']
      = Inr [recorded 1065536 65536, recorded 1196608 65536]
   \<and> fitsFree 1000000 1000000000 65536 [recorded 1065536 65536, recorded 1196608 65536] 1131072
   \<and> (1131072 :: int) < 1262144
   \<and> findIdmap appendEntry (sort_key Hostid) hostMap
        (Inr [isolatedAt ''c3'' ''1131072'' ''auto''])
        ''new'' ''true'' [] [] [] = Inr (allocated 1065536 65536, 1065536)"
  using ex_exact_gap ex_collect ex_fits ex_first_exact
  by simp

section \<open>Read-only keys on update (Update, VolatileSet)\<close>

text \<open>\<^verbatim>\<open>strings.HasPrefix\<close>.\<close>

definition HasPrefix :: "string \<Rightarrow> string \<Rightarrow> bool" where
  "HasPrefix s p = (take (length p) s = p)"

text \<open>
  The fields of \<^verbatim>\<open>db.ContainerArgs\<close> that the checks read, and what the calls out of
  the sources return: \<^verbatim>\<open>containerValidConfig\<close>, \<^verbatim>\<open>containerValidDevices\<close>, the
  cluster's profile list, \<^verbatim>\<open>osarch.ArchitectureName\<close>, and the container's own
  architecture.
\<close>

record ContainerArgs =
  Architecture :: int
  Config :: "string \<rightharpoonup> string"
  Profiles :: "string list"

record updateEnv =
  containerValidConfig :: "error option"
  containerValidDevices :: "error option"
  clusterProfiles :: "error + string list"
  architectureName :: "int \<Rightarrow> error option"
  cArchitecture :: int

definition volatileReadOnly :: error where
  "volatileReadOnly = Errorf ''Volatile keys are read-only''"

definition imageReadOnly :: error where
  "imageReadOnly = Errorf ''Image keys are read-only''"

text \<open>The loop that validates the requested profiles.\<close>

fun checkProfiles :: "string list \<Rightarrow> string list \<Rightarrow> string list \<Rightarrow> error option" where
  "checkProfiles profiles checkedProfiles [] = None"
| "checkProfiles profiles checkedProfiles (profile # rest) =
     (if profile \<notin> set profiles
      then Some (Errorf (''Requested profile '' @ [CHR 39] @ profile @ [CHR 39] @ '' doesn'' @ [CHR 39] @ ''t exist''))
      else if profile \<in> set checkedProfiles
      then Some (Errorf ''Duplicate profile found in request'')
      else checkProfiles profiles (checkedProfiles @ [profile]) rest)"

text \<open>
  The first part of \<^verbatim>\<open>Update\<close>: defaults for unset fields, then the validation of
  config, devices, profiles and architecture.
\<close>

definition validateArgs :: "updateEnv \<Rightarrow> ContainerArgs \<Rightarrow> error option" where
  "validateArgs env args =
     (let architecture = (if Architecture args = 0 then cArchitecture env else Architecture args) in
      case containerValidConfig env of
        Some err \<Rightarrow> Some (Wrap err ''Invalid config'')
      | None \<Rightarrow>
      (case containerValidDevices env of
        Some err \<Rightarrow> Some (Wrap err ''Invalid devices'')
      | None \<Rightarrow>
      (case clusterProfiles env of
        Inl err \<Rightarrow> Some (Wrap err ''Failed to get profiles'')
      | Inr profiles \<Rightarrow>
      (case checkProfiles profiles [] (Profiles args) of
        Some err \<Rightarrow> Some err
      | None \<Rightarrow>
      (case (if architecture \<noteq> 0 then architectureName env architecture else None) of
        Some err \<Rightarrow> Some (ErrorfErr ''Invalid architecture id: '' err)
      | None \<Rightarrow> None)))))"

text \<open>
  The two loops under \<^verbatim>\<open>if userRequested\<close>. Go visits the keys of a map in an order
  it does not fix, so the order is an argument: \<open>argKeys\<close> lists the keys of
  \<^verbatim>\<open>args.Config\<close> and \<open>localKeys\<close> those of \<^verbatim>\<open>c.localConfig\<close>. A loop compares the
  value of each key it visits with the other map's, where an absent key reads as \<open>[]\<close>.
\<close>

fun readOnlyLoop :: "(string \<rightharpoonup> string) \<Rightarrow> (string \<rightharpoonup> string) \<Rightarrow> string list \<Rightarrow> error option" where
  "readOnlyLoop m other [] = None"
| "readOnlyLoop m other (k # ks) =
     (if HasPrefix k ''volatile.'' \<and> cfg other k \<noteq> cfg m k then Some volatileReadOnly
      else if HasPrefix k ''image.'' \<and> cfg other k \<noteq> cfg m k then Some imageReadOnly
      else readOnlyLoop m other ks)"

definition readOnlyChecks ::
  "container \<Rightarrow> ContainerArgs \<Rightarrow> bool \<Rightarrow> string list \<Rightarrow> string list \<Rightarrow> error option" where
  "readOnlyChecks c args userRequested argKeys localKeys =
     (if userRequested then
        (case readOnlyLoop (Config args) (localConfig c) argKeys of
           Some err \<Rightarrow> Some err
         | None \<Rightarrow> readOnlyLoop (localConfig c) (Config args) localKeys)
      else None)"

text \<open>
  \<^verbatim>\<open>Update\<close> up to the end of these checks; the rest of the function, which is where
  the container is first changed, is the argument \<open>applyChanges\<close>.
\<close>

definition Update ::
  "updateEnv \<Rightarrow> (container \<Rightarrow> ContainerArgs \<Rightarrow> error option \<times> container)
   \<Rightarrow> container \<Rightarrow> ContainerArgs \<Rightarrow> bool \<Rightarrow> string list \<Rightarrow> string list
   \<Rightarrow> error option \<times> container" where
  "Update env applyChanges c args userRequested argKeys localKeys =
     (case validateArgs env args of
        Some err \<Rightarrow> (Some err, c)
      | None \<Rightarrow>
          (case readOnlyChecks c args userRequested argKeys localKeys of
             Some err \<Rightarrow> (Some err, c)
           | None \<Rightarrow> applyChanges c args))"

text \<open>
  \<^verbatim>\<open>VolatileSet\<close>: the sanity check over the keys, the database update (its result is
  an argument), then the local change, where an empty value deletes the key.
\<close>

fun volatileKeysOnly :: "string list \<Rightarrow> bool" where
  "volatileKeysOnly [] = True"
| "volatileKeysOnly (key # keys) = (if \<not> HasPrefix key ''volatile.'' then False else volatileKeysOnly keys)"

fun applyVolatile :: "(string \<rightharpoonup> string) \<Rightarrow> string list \<Rightarrow> container \<Rightarrow> container" where
  "applyVolatile changes [] c = c"
| "applyVolatile changes (key # keys) c =
     (if cfg changes key = []
      then applyVolatile changes keys
             (c\<lparr>expandedConfig := (expandedConfig c)(key := None),
                 localConfig := (localConfig c)(key := None)\<rparr>)
      else applyVolatile changes keys
             (c\<lparr>expandedConfig := (expandedConfig c)(key \<mapsto> cfg changes key),
                 localConfig := (localConfig c)(key \<mapsto> cfg changes key)\<rparr>))"

definition VolatileSet ::
  "error option \<Rightarrow> container \<Rightarrow> (string \<rightharpoonup> string) \<Rightarrow> string list \<Rightarrow> string list
   \<Rightarrow> error option \<times> container" where
  "VolatileSet containerConfigUpdate c changes keys1 keys2 =
     (if \<not> volatileKeysOnly keys1
      then (Some (Errorf ''Only volatile keys can be modified with VolatileSet''), c)
      else (case containerConfigUpdate of
              Some err \<Rightarrow> (Some (Wrap err ''Failed to update database''), c)
            | None \<Rightarrow> (None, applyVolatile changes keys2 c)))"

text \<open>
  A key list enumerates a map; two configurations differ on a key with a given prefix,
  an absent key counting as the empty string; the value a change set leaves at a key.
\<close>

definition enumerates :: "string list \<Rightarrow> (string \<rightharpoonup> string) \<Rightarrow> bool" where
  "enumerates keys m = (distinct keys \<and> set keys = dom m)"

definition differsOn :: "(string \<rightharpoonup> string) \<Rightarrow> (string \<rightharpoonup> string) \<Rightarrow> string \<Rightarrow> bool" where
  "differsOn a b p = (\<exists>k. HasPrefix k p \<and> cfg a k \<noteq> cfg b k)"

definition setValue :: "(string \<rightharpoonup> string) \<Rightarrow> (string \<rightharpoonup> string) \<Rightarrow> string \<Rightarrow> string option" where
  "setValue changes old key =
     (if key \<in> dom changes then (if cfg changes key = [] then None else Some (cfg changes key))
      else old key)"

text \<open>Concrete inputs: a request that passes validation and a plain container.\<close>

definition argsNoArch :: "(string \<rightharpoonup> string) \<Rightarrow> ContainerArgs" where
  "argsNoArch m = \<lparr>Architecture = 0, Config = m, Profiles = []\<rparr>"

definition envOk :: updateEnv where
  "envOk = \<lparr>containerValidConfig = None, containerValidDevices = None,
            clusterProfiles = Inr [''default''], architectureName = (\<lambda>a. None),
            cArchitecture = 2\<rparr>"

definition plainContainer :: "(string \<rightharpoonup> string) \<Rightarrow> container" where
  "plainContainer m = \<lparr>name = ''c1'', isSnapshot = False, expandedConfig = m, localConfig = m\<rparr>"

definition storeConfig :: "container \<Rightarrow> ContainerArgs \<Rightarrow> error option \<times> container" where
  "storeConfig c args = (None, c\<lparr>localConfig := Config args\<rparr>)"

subsection \<open>Results on the read-only keys\<close>

lemma readOnlyLoop_None:
  "readOnlyLoop m other ks = None \<longleftrightarrow>
     (\<forall>k\<in>set ks. (HasPrefix k ''volatile.'' \<or> HasPrefix k ''image.'') \<longrightarrow> cfg other k = cfg m k)"
  by (induction ks) auto

lemma readOnlyLoop_Some:
  "readOnlyLoop m other ks = Some e \<Longrightarrow>
     (e = volatileReadOnly \<and> (\<exists>k\<in>set ks. HasPrefix k ''volatile.'' \<and> cfg other k \<noteq> cfg m k))
   \<or> (e = imageReadOnly \<and> (\<exists>k\<in>set ks. HasPrefix k ''image.'' \<and> cfg other k \<noteq> cfg m k))"
  by (induction ks) (auto split: if_splits)

lemma readOnlyChecks_None:
  assumes "enumerates argKeys (Config args)" "enumerates localKeys (localConfig c)"
  shows "readOnlyChecks c args True argKeys localKeys = None \<longleftrightarrow>
     \<not> differsOn (Config args) (localConfig c) ''volatile.''
     \<and> \<not> differsOn (Config args) (localConfig c) ''image.''"
proof -
  let ?a = "Config args" and ?l = "localConfig c"
  let ?pref = "\<lambda>k. HasPrefix k ''volatile.'' \<or> HasPrefix k ''image.''"
  have absent: "cfg ?a k = cfg ?l k" if "k \<notin> set argKeys" "k \<notin> set localKeys" for k
  proof -
    from that assms have "?a k = None" "?l k = None"
      by (auto simp: enumerates_def dom_def)
    then show ?thesis by (simp add: cfg_def)
  qed
  have "readOnlyChecks c args True argKeys localKeys = None \<longleftrightarrow>
      readOnlyLoop ?a ?l argKeys = None \<and> readOnlyLoop ?l ?a localKeys = None"
    by (simp add: readOnlyChecks_def split: option.splits)
  also have "\<dots> \<longleftrightarrow> (\<forall>k\<in>set argKeys \<union> set localKeys. ?pref k \<longrightarrow> cfg ?a k = cfg ?l k)"
    unfolding readOnlyLoop_None by (simp add: ball_Un eq_commute)
  also have "\<dots> \<longleftrightarrow> (\<forall>k. ?pref k \<longrightarrow> cfg ?a k = cfg ?l k)"
    using absent by blast
  also have "\<dots> \<longleftrightarrow> \<not> differsOn ?a ?l ''volatile.'' \<and> \<not> differsOn ?a ?l ''image.''"
    unfolding differsOn_def by blast
  finally show ?thesis .
qed

lemma readOnlyChecks_Some:
  assumes "readOnlyChecks c args True argKeys localKeys = Some e"
  shows "(e = volatileReadOnly \<and> differsOn (Config args) (localConfig c) ''volatile.'')
       \<or> (e = imageReadOnly \<and> differsOn (Config args) (localConfig c) ''image.'')"
proof (cases "readOnlyLoop (Config args) (localConfig c) argKeys")
  case None
  with assms have "readOnlyLoop (localConfig c) (Config args) localKeys = Some e"
    by (simp add: readOnlyChecks_def)
  from readOnlyLoop_Some [OF this] show ?thesis
    unfolding differsOn_def by metis
next
  case (Some e')
  with assms have "e' = e" by (simp add: readOnlyChecks_def)
  with readOnlyLoop_Some [OF Some] show ?thesis
    unfolding differsOn_def by metis
qed

lemma volatileKeysOnly_iff:
  "volatileKeysOnly keys \<longleftrightarrow> (\<forall>k\<in>set keys. HasPrefix k ''volatile.'')"
  by (induction keys) auto

lemma applyVolatile_configs:
  "localConfig (applyVolatile changes keys c) =
     (\<lambda>key. if key \<in> set keys
             then (if cfg changes key = [] then None else Some (cfg changes key))
             else localConfig c key)
   \<and> expandedConfig (applyVolatile changes keys c) =
     (\<lambda>key. if key \<in> set keys
             then (if cfg changes key = [] then None else Some (cfg changes key))
             else expandedConfig c key)"
  by (induction changes keys c rule: applyVolatile.induct) (auto simp: fun_eq_iff)

text \<open>
  C7, as stated: a user-requested update fails whenever the submitted config differs
  from the local config on a \<open>volatile.\<close> key, also when the key is added. Adding
  \<open>volatile.base_image\<close> with the empty value to a container that has no such key is not
  refused: the loop reads the absent key as the empty string, finds no difference, and
  the update goes on to store the submitted config.
\<close>

theorem Update_read_only_counterexample:
  "HasPrefix ''volatile.base_image'' ''volatile.''
   \<and> Config (argsNoArch [''volatile.base_image'' \<mapsto> []]) ''volatile.base_image'' = Some []
   \<and> localConfig (plainContainer Map.empty) ''volatile.base_image'' = None
   \<and> Update envOk storeConfig (plainContainer Map.empty) (argsNoArch [''volatile.base_image'' \<mapsto> []])
        True [''volatile.base_image''] []
      = (None, (plainContainer Map.empty)\<lparr>localConfig := [''volatile.base_image'' \<mapsto> []]\<rparr>)"
  by (simp add: HasPrefix_def argsNoArch_def plainContainer_def Update_def validateArgs_def
      envOk_def readOnlyChecks_def cfg_def storeConfig_def)

text \<open>
  C7, amended. With an absent key counting as the empty string: a user-requested
  \<^verbatim>\<open>Update\<close> whose config differs from the container's local config on a key prefixed
  \<open>volatile.\<close> or \<open>image.\<close> fails and leaves the container as it was; when the
  earlier validation passes, the error is "Volatile keys are read-only" if only
  \<open>volatile.\<close> keys differ, "Image keys are read-only" if only \<open>image.\<close> keys differ,
  one of the two if both do, and with no such difference the update proceeds.
  \<^verbatim>\<open>VolatileSet\<close> refuses, without changing the container, a change set with a key
  not prefixed \<open>volatile.\<close>; a change set of \<open>volatile.\<close> keys is written to the
  local and expanded configs once the database update succeeds, an empty value
  deleting the key.
\<close>

theorem Update_read_only_keys:
  assumes en: "enumerates argKeys (Config args)" "enumerates localKeys (localConfig c)"
    and ch: "enumerates keys1 changes" "enumerates keys2 changes"
  shows "(differsOn (Config args) (localConfig c) ''volatile.''
            \<or> differsOn (Config args) (localConfig c) ''image.'' \<longrightarrow>
          (\<exists>err. Update env applyChanges c args True argKeys localKeys = (Some err, c)))
       \<and> (validateArgs env args = None \<longrightarrow>
            (differsOn (Config args) (localConfig c) ''volatile.''
               \<and> \<not> differsOn (Config args) (localConfig c) ''image.'' \<longrightarrow>
             Update env applyChanges c args True argKeys localKeys = (Some volatileReadOnly, c))
          \<and> (differsOn (Config args) (localConfig c) ''image.''
               \<and> \<not> differsOn (Config args) (localConfig c) ''volatile.'' \<longrightarrow>
             Update env applyChanges c args True argKeys localKeys = (Some imageReadOnly, c))
          \<and> (differsOn (Config args) (localConfig c) ''volatile.''
               \<and> differsOn (Config args) (localConfig c) ''image.'' \<longrightarrow>
             Update env applyChanges c args True argKeys localKeys = (Some volatileReadOnly, c)
             \<or> Update env applyChanges c args True argKeys localKeys = (Some imageReadOnly, c))
          \<and> (\<not> differsOn (Config args) (localConfig c) ''volatile.''
               \<and> \<not> differsOn (Config args) (localConfig c) ''image.'' \<longrightarrow>
             Update env applyChanges c args True argKeys localKeys = applyChanges c args))
       \<and> ((\<exists>k\<in>dom changes. \<not> HasPrefix k ''volatile.'') \<longrightarrow>
            VolatileSet dbResult c changes keys1 keys2
              = (Some (Errorf ''Only volatile keys can be modified with VolatileSet''), c))
       \<and> ((\<forall>k\<in>dom changes. HasPrefix k ''volatile.'') \<and> dbResult = None \<longrightarrow>
            fst (VolatileSet dbResult c changes keys1 keys2) = None
            \<and> localConfig (snd (VolatileSet dbResult c changes keys1 keys2))
                = setValue changes (localConfig c)
            \<and> expandedConfig (snd (VolatileSet dbResult c changes keys1 keys2))
                = setValue changes (expandedConfig c))"
proof -
  let ?a = "Config args" and ?l = "localConfig c"
  let ?U = "Update env applyChanges c args True argKeys localKeys"
  let ?R = "readOnlyChecks c args True argKeys localKeys"
  note none = readOnlyChecks_None [OF en]
  have fails: "\<exists>err. ?U = (Some err, c)"
    if d: "differsOn ?a ?l ''volatile.'' \<or> differsOn ?a ?l ''image.''"
  proof (cases "validateArgs env args")
    case (Some e)
    then show ?thesis by (simp add: Update_def)
  next
    case None
    from d none have "?R \<noteq> None" by blast
    then obtain e where "?R = Some e" by blast
    with None show ?thesis by (simp add: Update_def)
  qed
  have spec: "?U = (Some volatileReadOnly, c) \<or> ?U = (Some imageReadOnly, c)"
    "\<not> differsOn ?a ?l ''image.'' \<longrightarrow> ?U = (Some volatileReadOnly, c)"
    "\<not> differsOn ?a ?l ''volatile.'' \<longrightarrow> ?U = (Some imageReadOnly, c)"
    if v: "validateArgs env args = None"
      and d: "differsOn ?a ?l ''volatile.'' \<or> differsOn ?a ?l ''image.''"
  proof -
    from d none have "?R \<noteq> None" by blast
    then obtain e where e: "?R = Some e" by blast
    from readOnlyChecks_Some [OF e] e v
    show "?U = (Some volatileReadOnly, c) \<or> ?U = (Some imageReadOnly, c)"
      "\<not> differsOn ?a ?l ''image.'' \<longrightarrow> ?U = (Some volatileReadOnly, c)"
      "\<not> differsOn ?a ?l ''volatile.'' \<longrightarrow> ?U = (Some imageReadOnly, c)"
      by (auto simp: Update_def)
  qed
  have pass: "?U = applyChanges c args"
    if "validateArgs env args = None"
      "\<not> differsOn ?a ?l ''volatile.''" "\<not> differsOn ?a ?l ''image.''"
    using that none by (simp add: Update_def)
  have k1: "set keys1 = dom changes" and k2: "set keys2 = dom changes"
    using ch by (simp_all add: enumerates_def)
  have rej: "VolatileSet dbResult c changes keys1 keys2
      = (Some (Errorf ''Only volatile keys can be modified with VolatileSet''), c)"
    if "\<exists>k\<in>dom changes. \<not> HasPrefix k ''volatile.''"
    using that k1 by (simp add: VolatileSet_def volatileKeysOnly_iff)
  have acc: "fst (VolatileSet dbResult c changes keys1 keys2) = None
      \<and> localConfig (snd (VolatileSet dbResult c changes keys1 keys2))
          = setValue changes (localConfig c)
      \<and> expandedConfig (snd (VolatileSet dbResult c changes keys1 keys2))
          = setValue changes (expandedConfig c)"
    if "\<forall>k\<in>dom changes. HasPrefix k ''volatile.''" "dbResult = None"
    using that k1 k2 applyVolatile_configs [of changes keys2 c]
    by (simp add: VolatileSet_def volatileKeysOnly_iff setValue_def fun_eq_iff)
  show ?thesis
  proof (intro conjI impI)
    assume "differsOn ?a ?l ''volatile.'' \<or> differsOn ?a ?l ''image.''"
    then show "\<exists>err. ?U = (Some err, c)" by (rule fails)
  next
    assume "validateArgs env args = None"
      "differsOn ?a ?l ''volatile.'' \<and> \<not> differsOn ?a ?l ''image.''"
    then show "?U = (Some volatileReadOnly, c)" using spec(2) by blast
  next
    assume "validateArgs env args = None"
      "differsOn ?a ?l ''image.'' \<and> \<not> differsOn ?a ?l ''volatile.''"
    then show "?U = (Some imageReadOnly, c)" using spec(3) by blast
  next
    assume "validateArgs env args = None"
      "differsOn ?a ?l ''volatile.'' \<and> differsOn ?a ?l ''image.''"
    then show "?U = (Some volatileReadOnly, c) \<or> ?U = (Some imageReadOnly, c)"
      using spec(1) by blast
  next
    assume "validateArgs env args = None"
      "\<not> differsOn ?a ?l ''volatile.'' \<and> \<not> differsOn ?a ?l ''image.''"
    then show "?U = applyChanges c args" using pass by blast
  next
    assume "\<exists>k\<in>dom changes. \<not> HasPrefix k ''volatile.''"
    then show "VolatileSet dbResult c changes keys1 keys2
      = (Some (Errorf ''Only volatile keys can be modified with VolatileSet''), c)"
      by (rule rej)
  next
    assume h: "(\<forall>k\<in>dom changes. HasPrefix k ''volatile.'') \<and> dbResult = None"
    then have h1: "\<forall>k\<in>dom changes. HasPrefix k ''volatile.''" and h2: "dbResult = None"
      by simp_all
    note r = acc [OF h1 h2]
    from r show "fst (VolatileSet dbResult c changes keys1 keys2) = None" by simp
    from r show "localConfig (snd (VolatileSet dbResult c changes keys1 keys2))
          = setValue changes (localConfig c)" by simp
    from r show "expandedConfig (snd (VolatileSet dbResult c changes keys1 keys2))
          = setValue changes (expandedConfig c)" by simp
  qed
qed

theorem Update_read_only_keys_witness:
  "Update envOk storeConfig (plainContainer [''volatile.base_image'' \<mapsto> ''abc''])
     (argsNoArch [''volatile.base_image'' \<mapsto> ''def'']) True
     [''volatile.base_image''] [''volatile.base_image'']
     = (Some volatileReadOnly, plainContainer [''volatile.base_image'' \<mapsto> ''abc''])
   \<and> fst (VolatileSet None (plainContainer [''volatile.base_image'' \<mapsto> ''abc''])
          [''volatile.idmap.base'' \<mapsto> ''1065536'']
          [''volatile.idmap.base''] [''volatile.idmap.base'']) = None
   \<and> localConfig (snd (VolatileSet None (plainContainer [''volatile.base_image'' \<mapsto> ''abc''])
          [''volatile.idmap.base'' \<mapsto> ''1065536'']
          [''volatile.idmap.base''] [''volatile.idmap.base'']))
       = setValue [''volatile.idmap.base'' \<mapsto> ''1065536''] [''volatile.base_image'' \<mapsto> ''abc'']"
proof -
  let ?c = "plainContainer [''volatile.base_image'' \<mapsto> ''abc'']"
  let ?args = "argsNoArch [''volatile.base_image'' \<mapsto> ''def'']"
  let ?ch = "[''volatile.idmap.base'' \<mapsto> ''1065536'']"
  have en: "enumerates [''volatile.base_image''] (Config ?args)"
    "enumerates [''volatile.base_image''] (localConfig ?c)"
    by (simp_all add: enumerates_def argsNoArch_def plainContainer_def)
  have ch: "enumerates [''volatile.idmap.base''] ?ch"
    by (simp add: enumerates_def)
  have v: "validateArgs envOk ?args = None"
    by (simp add: validateArgs_def envOk_def argsNoArch_def)
  have d: "differsOn (Config ?args) (localConfig ?c) ''volatile.''"
    unfolding differsOn_def
    by (rule exI [of _ "''volatile.base_image''"])
      (simp add: HasPrefix_def cfg_def argsNoArch_def plainContainer_def)
  have i: "\<not> differsOn (Config ?args) (localConfig ?c) ''image.''"
    by (auto simp: differsOn_def HasPrefix_def cfg_def argsNoArch_def plainContainer_def
        split: if_splits)
  have p: "\<forall>k\<in>dom ?ch. HasPrefix k ''volatile.''"
    by (simp add: HasPrefix_def)
  from Update_read_only_keys [OF en ch ch, of envOk storeConfig None] v d i p
  show ?thesis by (simp add: plainContainer_def)
qed

section \<open>Deleting a container (Delete)\<close>

text \<open>Sequencing of fallible steps on a state: the first error ends the run.\<close>

definition andThen ::
  "error option \<times> 'w \<Rightarrow> ('w \<Rightarrow> error option \<times> 'w) \<Rightarrow> error option \<times> 'w" where
  "andThen r f = (case r of (Some err, w) \<Rightarrow> (Some err, w) | (None, w) \<Rightarrow> f w)"

text \<open>
  \<^verbatim>\<open>Delete\<close> works through the storage driver, the cluster database, MAAS, the device
  layer and the file system, none of which is among the sources. They are the fields
  of \<open>deleteOps\<close>, each a function on a state \<open>'w\<close> of whatever those layers hold:
  a fallible operation returns its error, if any, and the state it leaves.
  \<open>importingExists\<close> is the test for the \<^verbatim>\<open>.importing\<close> marker, \<open>storageLoadInit\<close>
  tells whether \<^verbatim>\<open>initStorage\<close> obtains a storage handle, \<open>pathExists\<close> and
  \<open>mountPointExists\<close> are the two \<^verbatim>\<open>shared.PathExists\<close> tests before the volume is
  deleted.
\<close>

record ('w, 'b) deleteOps =
  importingExists :: "'w \<Rightarrow> bool"
  storageLoadInit :: "'w \<Rightarrow> bool"
  ContainerSnapshotDelete :: "'w \<Rightarrow> error option \<times> 'w"
  containerDeleteSnapshots :: "'w \<Rightarrow> error option \<times> 'w"
  Backups :: "'w \<Rightarrow> error + 'b list"
  backupDelete :: "'b \<Rightarrow> 'w \<Rightarrow> error option \<times> 'w"
  cleanup :: "'w \<Rightarrow> 'w"
  pathExists :: "'w \<Rightarrow> bool"
  mountPointExists :: "'w \<Rightarrow> bool"
  ContainerDelete :: "'w \<Rightarrow> error option \<times> 'w"
  maasDelete :: "'w \<Rightarrow> error option \<times> 'w"
  deviceRemove :: "string \<Rightarrow> 'w \<Rightarrow> error option \<times> 'w"
  ContainerRemove :: "'w \<Rightarrow> error option \<times> 'w"
  StoragePoolVolumeDelete :: "'w \<Rightarrow> error option \<times> 'w"
  eventSendLifecycle :: "'w \<Rightarrow> 'w"

definition protected :: error where
  "protected = Errorf ''Container is protected''"

text \<open>The loops over the backups and over the expanded devices.\<close>

fun deleteBackups :: "('w, 'b) deleteOps \<Rightarrow> 'b list \<Rightarrow> 'w \<Rightarrow> error option \<times> 'w" where
  "deleteBackups ops [] w = (None, w)"
| "deleteBackups ops (backup # backups) w =
     andThen (backupDelete ops backup w) (deleteBackups ops backups)"

fun removeDevices :: "('w, 'b) deleteOps \<Rightarrow> string list \<Rightarrow> 'w \<Rightarrow> error option \<times> 'w" where
  "removeDevices ops [] w = (None, w)"
| "removeDevices ops (k # ks) w =
     (case deviceRemove ops k w of
        (Some err, w') \<Rightarrow>
          if err \<noteq> ErrUnsupportedDevType
          then (Some (Wrap err (''Failed to remove device '' @ [CHR 0x27] @ k @ [CHR 0x27])), w')
          else removeDevices ops ks w'
      | (None, w') \<Rightarrow> removeDevices ops ks w')"

text \<open>
  \<^verbatim>\<open>Delete\<close>. \<open>hasStorage\<close> says whether \<^verbatim>\<open>c.storage\<close> is set on entry, and
  \<open>expandedDevices\<close> lists the device names in the order the map is visited. Log
  messages are left out.
\<close>

definition Delete ::
  "('w, 'b) deleteOps \<Rightarrow> container \<Rightarrow> bool \<Rightarrow> string list \<Rightarrow> 'w \<Rightarrow> error option \<times> 'w" where
  "Delete ops c hasStorage expandedDevices w =
     (if IsTrue (cfg (expandedConfig c) ''security.protection.delete'') \<and> \<not> isSnapshot c
      then (Some protected, w)
      else
        (let isImport = (hasStorage \<and> importingExists ops w);
             storage = (hasStorage \<or> storageLoadInit ops w)
         in
         andThen
           (if isSnapshot c then
              (if storage \<and> \<not> isImport then ContainerSnapshotDelete ops w else (None, w))
            else
              andThen (containerDeleteSnapshots ops w) (\<lambda>w.
              andThen (case Backups ops w of
                         Inl err \<Rightarrow> (Some err, w)
                       | Inr backups \<Rightarrow> deleteBackups ops backups w) (\<lambda>w.
              andThen (if storage \<and> \<not> isImport
                          \<and> (pathExists ops (cleanup ops w) \<or> mountPointExists ops (cleanup ops w))
                       then ContainerDelete ops (cleanup ops w)
                       else (None, cleanup ops w)) (\<lambda>w.
              andThen (maasDelete ops w) (\<lambda>w.
              removeDevices ops expandedDevices w)))))
           (\<lambda>w.
            andThen (ContainerRemove ops w) (\<lambda>w.
            andThen (if storage then StoragePoolVolumeDelete ops w else (None, w)) (\<lambda>w.
            (None, eventSendLifecycle ops w))))))"

text \<open>
  A concrete state to run \<^verbatim>\<open>Delete\<close> on: the database rows, the volume rows and the
  volumes of a container \<open>c1\<close> and its snapshot \<open>c1/snap0\<close>, with operations that
  remove the entries of the named instance.
\<close>

record host =
  dbContainers :: "string list"
  dbVolumes :: "string list"
  snapshotVolumes :: "string list"
  containerVolumes :: "string list"
  events :: "string list"

definition hostOps :: "string \<Rightarrow> (host, string) deleteOps" where
  "hostOps n =
     \<lparr>importingExists = (\<lambda>w. False),
      storageLoadInit = (\<lambda>w. True),
      ContainerSnapshotDelete = (\<lambda>w. (None, w\<lparr>snapshotVolumes := removeAll n (snapshotVolumes w)\<rparr>)),
      containerDeleteSnapshots = (\<lambda>w. (None, w)),
      Backups = (\<lambda>w. Inr []),
      backupDelete = (\<lambda>b w. (None, w)),
      cleanup = (\<lambda>w. w),
      pathExists = (\<lambda>w. n \<in> set (containerVolumes w)),
      mountPointExists = (\<lambda>w. False),
      ContainerDelete = (\<lambda>w. (None, w\<lparr>containerVolumes := removeAll n (containerVolumes w)\<rparr>)),
      maasDelete = (\<lambda>w. (None, w)),
      deviceRemove = (\<lambda>k w. (None, w)),
      ContainerRemove = (\<lambda>w. (None, w\<lparr>dbContainers := removeAll n (dbContainers w)\<rparr>)),
      StoragePoolVolumeDelete = (\<lambda>w. (None, w\<lparr>dbVolumes := removeAll n (dbVolumes w)\<rparr>)),
      eventSendLifecycle = (\<lambda>w. w\<lparr>events := events w @ [n]\<rparr>)\<rparr>"

definition protectedConfig :: "string \<rightharpoonup> string" where
  "protectedConfig = [''security.protection.delete'' \<mapsto> ''true'']"

definition host0 :: host where
  "host0 = \<lparr>dbContainers = [''c1'', ''c1/snap0''], dbVolumes = [''c1'', ''c1/snap0''],
            snapshotVolumes = [''c1/snap0''], containerVolumes = [''c1''], events = []\<rparr>"

subsection \<open>Results on Delete\<close>

lemma Delete_unprotected_example:
  "Delete (hostOps ''c1'')
     \<lparr>name = ''c1'', isSnapshot = False, expandedConfig = Map.empty,
       localConfig = Map.empty\<rparr> True [] host0
   = (None, \<lparr>dbContainers = [''c1/snap0''], dbVolumes = [''c1/snap0''],
             snapshotVolumes = [''c1/snap0''], containerVolumes = [], events = [''c1'']\<rparr>)"
  by code_simp

text \<open>
  C5, as stated: every container whose expanded config sets
  \<open>security.protection.delete\<close> to a true value is refused. A snapshot is a
  container too (its type is \<^verbatim>\<open>db.CTypeSnapshot\<close>), and the guard excludes it: with
  the flag set, the snapshot \<open>c1/snap0\<close> is deleted, its volume, its database row and
  its volume row are removed, and no error is returned.
\<close>

theorem Delete_protected_counterexample:
  "IsTrue (cfg protectedConfig ''security.protection.delete'')
   \<and> Delete (hostOps ''c1/snap0'')
        \<lparr>name = ''c1/snap0'', isSnapshot = True, expandedConfig = protectedConfig,
          localConfig = Map.empty\<rparr> True [] host0
     = (None, \<lparr>dbContainers = [''c1''], dbVolumes = [''c1''], snapshotVolumes = [],
               containerVolumes = [''c1''], events = [''c1/snap0'']\<rparr>)"
  by code_simp

text \<open>
  C5, amended. For every container that is not a snapshot and whose expanded config
  sets \<open>security.protection.delete\<close> to a true value, \<^verbatim>\<open>Delete\<close> fails with
  "Container is protected" and touches no state: whatever the operations on
  snapshots, backups, storage, devices, MAAS and the database would do, none is run
  and the state is returned as it was.
\<close>

theorem Delete_protected:
  assumes "IsTrue (cfg (expandedConfig c) ''security.protection.delete'')" "\<not> isSnapshot c"
  shows "Delete ops c hasStorage expandedDevices w = (Some protected, w)"
  using assms by (simp add: Delete_def)

theorem Delete_protected_witness:
  "Delete (hostOps ''c1'')
     \<lparr>name = ''c1'', isSnapshot = False, expandedConfig = protectedConfig,
       localConfig = Map.empty\<rparr> True [] host0
   = (Some protected, host0)"
proof -
  have "IsTrue (cfg (expandedConfig \<lparr>name = ''c1'', isSnapshot = False,
      expandedConfig = protectedConfig, localConfig = Map.empty\<rparr>) ''security.protection.delete'')"
    by code_simp
  from Delete_protected [OF this] show ?thesis by simp
qed

section \<open>The backup file (writeBackupFile)\<close>

text \<open>
  The file system as far as the function sees it: the directories that exist, and the
  regular files with their mode and content. \<^verbatim>\<open>shared.PathExists\<close> holds of both.
  \<^verbatim>\<open>filepath.Join\<close> is taken on a clean directory path and a plain name.
\<close>

record osFile =
  mode :: nat
  content :: string

record filesystem =
  dirs :: "string list"
  files :: "string \<rightharpoonup> osFile"

definition PathExists :: "filesystem \<Rightarrow> string \<Rightarrow> bool" where
  "PathExists fs p = (p \<in> set (dirs fs) \<or> files fs p \<noteq> None)"

definition Join :: "string \<Rightarrow> string \<Rightarrow> string" where
  "Join dir n = dir @ ''/'' @ n"

text \<open>The struct that is marshalled into the file.\<close>

record ('c, 's, 'p, 'v) backupFile =
  Container :: 'c
  Snapshots :: "'s list"
  Pool :: 'p
  Volume :: 'v

text \<open>
  What the calls out of the sources return: the container's path, its rendering, its
  snapshots and their rendering, the pool name, the pool and volume records of the
  database, the YAML encoder, and the three file operations \<^verbatim>\<open>os.Create\<close>,
  \<^verbatim>\<open>f.Chmod\<close> and \<^verbatim>\<open>shared.WriteAll\<close> (which also tells what it wrote).
\<close>

record ('c, 's, 'p, 'v) backupEnv =
  Path :: string
  Render :: "error + 'c"
  loadSnapshots :: "error + container list"
  RenderSnapshot :: "container \<Rightarrow> error + 's"
  StoragePool :: "error + string"
  StoragePoolGet :: "string \<Rightarrow> error + (int \<times> 'p)"
  StoragePoolNodeVolumeGet :: "int \<Rightarrow> error + 'v"
  Marshal :: "('c, 's, 'p, 'v) backupFile \<Rightarrow> error + string"
  osCreate :: "error option"
  Chmod :: "error option"
  WriteAll :: "string \<Rightarrow> error option \<times> string"

text \<open>The loop that renders every snapshot, and the steps that produce the YAML.\<close>

fun renderSnapshots :: "(container \<Rightarrow> error + 's) \<Rightarrow> container list \<Rightarrow> error + 's list" where
  "renderSnapshots render [] = Inr []"
| "renderSnapshots render (s # snapshots) =
     (case render s of
        Inl err \<Rightarrow> Inl err
      | Inr si \<Rightarrow>
          (case renderSnapshots render snapshots of
             Inl err \<Rightarrow> Inl err
           | Inr sis \<Rightarrow> Inr (si # sis)))"

definition backupData :: "('c, 's, 'p, 'v) backupEnv \<Rightarrow> error + string" where
  "backupData env =
     (case Render env of
        Inl err \<Rightarrow> Inl (Wrap err ''Failed to render container metadata'')
      | Inr ci \<Rightarrow>
      (case loadSnapshots env of
        Inl err \<Rightarrow> Inl (Wrap err ''Failed to get snapshots'')
      | Inr snapshots \<Rightarrow>
      (case renderSnapshots (RenderSnapshot env) snapshots of
        Inl err \<Rightarrow> Inl err
      | Inr sis \<Rightarrow>
      (case StoragePool env of
        Inl err \<Rightarrow> Inl err
      | Inr poolName \<Rightarrow>
      (case StoragePoolGet env poolName of
        Inl err \<Rightarrow> Inl err
      | Inr (poolID, pool) \<Rightarrow>
      (case StoragePoolNodeVolumeGet env poolID of
        Inl err \<Rightarrow> Inl err
      | Inr volume \<Rightarrow>
          Marshal env \<lparr>Container = ci, Snapshots = sis, Pool = pool, Volume = volume\<rparr>))))))"

text \<open>
  The effect of the file operations when they succeed: \<^verbatim>\<open>os.Create\<close> truncates, and
  creates with mode 0666 a file that does not exist; \<^verbatim>\<open>Chmod\<close> sets the mode; the
  write appends to the content.
\<close>

definition createFile :: "filesystem \<Rightarrow> string \<Rightarrow> filesystem" where
  "createFile fs p =
     fs\<lparr>files := (files fs)(p \<mapsto>
        \<lparr>mode = (case files fs p of None \<Rightarrow> 438 | Some f \<Rightarrow> mode f), content = []\<rparr>)\<rparr>"

definition chmodFile :: "filesystem \<Rightarrow> string \<Rightarrow> nat \<Rightarrow> filesystem" where
  "chmodFile fs p m =
     fs\<lparr>files := (files fs)(p := map_option (\<lambda>f. f\<lparr>mode := m\<rparr>) (files fs p))\<rparr>"

definition writeFile :: "filesystem \<Rightarrow> string \<Rightarrow> string \<Rightarrow> filesystem" where
  "writeFile fs p d =
     fs\<lparr>files := (files fs)(p := map_option (\<lambda>f. f\<lparr>content := content f @ d\<rparr>) (files fs p))\<rparr>"

definition writeBackupFile ::
  "('c, 's, 'p, 'v) backupEnv \<Rightarrow> container \<Rightarrow> filesystem \<Rightarrow> error option \<times> filesystem" where
  "writeBackupFile env c fs =
     (if isSnapshot c then (None, fs)
      else if \<not> PathExists fs (Path env) then (Some ErrNotExist, fs)
      else
        (case backupData env of
           Inl err \<Rightarrow> (Some err, fs)
         | Inr data \<Rightarrow>
             if \<not> PathExists fs (Join (Path env) ''rootfs'') then (None, fs)
             else
               (case osCreate env of
                  Some err \<Rightarrow> (Some err, fs)
                | None \<Rightarrow>
                    (let fs1 = createFile fs (Join (Path env) ''backup.yaml'') in
                     case Chmod env of
                       Some err \<Rightarrow> (Some err, fs1)
                     | None \<Rightarrow>
                         (let fs2 = chmodFile fs1 (Join (Path env) ''backup.yaml'') 256 in
                          case WriteAll env data of
                            (Some err, written) \<Rightarrow>
                              (Some err, writeFile fs2 (Join (Path env) ''backup.yaml'') written)
                          | (None, written) \<Rightarrow>
                              (None, writeFile fs2 (Join (Path env) ''backup.yaml'') written))))))"

text \<open>Concrete inputs: a container \<open>c1\<close> with one snapshot, mounted or without a path.\<close>

definition backupEnv0 :: "(string, string, string, string) backupEnv" where
  "backupEnv0 =
     \<lparr>Path = ''/var/lib/lxd/containers/c1'',
      Render = Inr ''c1'',
      loadSnapshots = Inr [\<lparr>name = ''c1/snap0'', isSnapshot = True, expandedConfig = Map.empty,
                             localConfig = Map.empty\<rparr>],
      RenderSnapshot = (\<lambda>s. Inr (name s)),
      StoragePool = Inr ''default'',
      StoragePoolGet = (\<lambda>n. Inr (1, n)),
      StoragePoolNodeVolumeGet = (\<lambda>i. Inr ''vol-c1''),
      Marshal = (\<lambda>b. Inr (Container b @ '';'' @ concat (Snapshots b) @ '';'' @ Pool b @ '';''
                            @ Volume b)),
      osCreate = None, Chmod = None, WriteAll = (\<lambda>d. (None, d))\<rparr>"

definition c1 :: container where
  "c1 = \<lparr>name = ''c1'', isSnapshot = False, expandedConfig = Map.empty, localConfig = Map.empty\<rparr>"

definition fsMounted :: filesystem where
  "fsMounted = \<lparr>dirs = [''/var/lib/lxd/containers/c1'', ''/var/lib/lxd/containers/c1/rootfs''],
                files = Map.empty\<rparr>"

definition fsNoPath :: filesystem where
  "fsNoPath = \<lparr>dirs = [], files = Map.empty\<rparr>"

subsection \<open>Results on writeBackupFile\<close>

lemma backupData0:
  "backupData backupEnv0 = Inr ''c1;c1/snap0;default;vol-c1''"
  by (simp add: backupData_def backupEnv0_def)

text \<open>
  C8, as stated: the write is skipped without error for a container whose path is not
  mounted. For a container whose path does not exist the function returns
  \<^verbatim>\<open>os.ErrNotExist\<close>.
\<close>

theorem writeBackupFile_skip_counterexample:
  "\<not> isSnapshot c1 \<and> \<not> PathExists fsNoPath (Path backupEnv0)
   \<and> writeBackupFile backupEnv0 c1 fsNoPath = (Some ErrNotExist, fsNoPath)"
  by (simp add: c1_def PathExists_def fsNoPath_def writeBackupFile_def)

text \<open>
  C8, amended. \<^verbatim>\<open>writeBackupFile\<close> returns without error and without writing for a
  snapshot. For a container whose path does not exist it writes nothing and returns
  \<^verbatim>\<open>os.ErrNotExist\<close>. For a container whose path exists and whose metadata was
  gathered, but whose rootfs does not exist, it returns without error and without
  writing. Otherwise, when every step succeeds, \<open>backup.yaml\<close> under the container's
  path has mode 0400 and holds the encoding of the rendered container, the rendering
  of every snapshot, the pool record and the volume record; no other file changes.
\<close>

theorem writeBackupFile_result:
  "(isSnapshot c \<longrightarrow> writeBackupFile env c fs = (None, fs))
   \<and> (\<not> isSnapshot c \<and> \<not> PathExists fs (Path env) \<longrightarrow>
        writeBackupFile env c fs = (Some ErrNotExist, fs))
   \<and> (\<not> isSnapshot c \<and> PathExists fs (Path env) \<and> backupData env = Inr data
        \<and> \<not> PathExists fs (Join (Path env) ''rootfs'') \<longrightarrow>
        writeBackupFile env c fs = (None, fs))
   \<and> (\<not> isSnapshot c \<and> PathExists fs (Path env)
        \<and> Render env = Inr ci \<and> loadSnapshots env = Inr snapshots
        \<and> renderSnapshots (RenderSnapshot env) snapshots = Inr sis
        \<and> StoragePool env = Inr poolName \<and> StoragePoolGet env poolName = Inr (poolID, pool)
        \<and> StoragePoolNodeVolumeGet env poolID = Inr volume
        \<and> Marshal env \<lparr>Container = ci, Snapshots = sis, Pool = pool, Volume = volume\<rparr> = Inr data
        \<and> PathExists fs (Join (Path env) ''rootfs'')
        \<and> osCreate env = None \<and> Chmod env = None \<and> WriteAll env data = (None, data) \<longrightarrow>
        fst (writeBackupFile env c fs) = None
        \<and> files (snd (writeBackupFile env c fs)) =
            (files fs)(Join (Path env) ''backup.yaml'' \<mapsto> \<lparr>mode = 256, content = data\<rparr>)
        \<and> dirs (snd (writeBackupFile env c fs)) = dirs fs
        \<and> map (RenderSnapshot env) snapshots = map Inr sis)"
proof (intro conjI impI)
  assume "isSnapshot c"
  then show "writeBackupFile env c fs = (None, fs)" by (simp add: writeBackupFile_def)
next
  assume "\<not> isSnapshot c \<and> \<not> PathExists fs (Path env)"
  then show "writeBackupFile env c fs = (Some ErrNotExist, fs)"
    by (simp add: writeBackupFile_def)
next
  assume "\<not> isSnapshot c \<and> PathExists fs (Path env) \<and> backupData env = Inr data
        \<and> \<not> PathExists fs (Join (Path env) ''rootfs'')"
  then show "writeBackupFile env c fs = (None, fs)"
    by (simp add: writeBackupFile_def)
next
  assume h: "\<not> isSnapshot c \<and> PathExists fs (Path env)
        \<and> Render env = Inr ci \<and> loadSnapshots env = Inr snapshots
        \<and> renderSnapshots (RenderSnapshot env) snapshots = Inr sis
        \<and> StoragePool env = Inr poolName \<and> StoragePoolGet env poolName = Inr (poolID, pool)
        \<and> StoragePoolNodeVolumeGet env poolID = Inr volume
        \<and> Marshal env \<lparr>Container = ci, Snapshots = sis, Pool = pool, Volume = volume\<rparr> = Inr data
        \<and> PathExists fs (Join (Path env) ''rootfs'')
        \<and> osCreate env = None \<and> Chmod env = None \<and> WriteAll env data = (None, data)"
  then have d: "backupData env = Inr data" by (simp add: backupData_def)
  have w: "writeBackupFile env c fs =
      (None, writeFile (chmodFile (createFile fs (Join (Path env) ''backup.yaml''))
               (Join (Path env) ''backup.yaml'') 256) (Join (Path env) ''backup.yaml'') data)"
    using h d by (simp add: writeBackupFile_def)
  show "fst (writeBackupFile env c fs) = None" by (simp add: w)
  show "files (snd (writeBackupFile env c fs)) =
            (files fs)(Join (Path env) ''backup.yaml'' \<mapsto> \<lparr>mode = 256, content = data\<rparr>)"
    by (simp add: w writeFile_def chmodFile_def createFile_def)
  show "dirs (snd (writeBackupFile env c fs)) = dirs fs"
    by (simp add: w writeFile_def chmodFile_def createFile_def)
  have "renderSnapshots r ss = Inr xs \<Longrightarrow> map r ss = map Inr xs"
    for r ss and xs :: "'b list"
    by (induction ss arbitrary: xs) (auto split: sum.splits)
  with h show "map (RenderSnapshot env) snapshots = map Inr sis" by blast
qed

theorem writeBackupFile_result_witness:
  "fst (writeBackupFile backupEnv0 c1 fsMounted) = None
   \<and> files (snd (writeBackupFile backupEnv0 c1 fsMounted)) =
       [''/var/lib/lxd/containers/c1/backup.yaml'' \<mapsto>
          \<lparr>mode = 256, content = ''c1;c1/snap0;default;vol-c1''\<rparr>]
   \<and> writeBackupFile backupEnv0 (c1\<lparr>isSnapshot := True\<rparr>) fsMounted = (None, fsMounted)"
proof -
  let ?snap = "\<lparr>name = ''c1/snap0'', isSnapshot = True, expandedConfig = Map.empty,
      localConfig = Map.empty\<rparr>"
  have h: "\<not> isSnapshot c1 \<and> PathExists fsMounted (Path backupEnv0)
      \<and> Render backupEnv0 = Inr ''c1'' \<and> loadSnapshots backupEnv0 = Inr [?snap]
      \<and> renderSnapshots (RenderSnapshot backupEnv0) [?snap] = Inr [''c1/snap0'']
      \<and> StoragePool backupEnv0 = Inr ''default''
      \<and> StoragePoolGet backupEnv0 ''default'' = Inr (1, ''default'')
      \<and> StoragePoolNodeVolumeGet backupEnv0 1 = Inr ''vol-c1''
      \<and> Marshal backupEnv0 \<lparr>Container = ''c1'', Snapshots = [''c1/snap0''], Pool = ''default'',
            Volume = ''vol-c1''\<rparr> = Inr ''c1;c1/snap0;default;vol-c1''
      \<and> PathExists fsMounted (Join (Path backupEnv0) ''rootfs'')
      \<and> osCreate backupEnv0 = None \<and> Chmod backupEnv0 = None
      \<and> WriteAll backupEnv0 ''c1;c1/snap0;default;vol-c1''
          = (None, ''c1;c1/snap0;default;vol-c1'')"
    by (simp add: c1_def backupEnv0_def PathExists_def fsMounted_def Join_def)
  have s: "isSnapshot (c1\<lparr>isSnapshot := True\<rparr>)" by simp
  from writeBackupFile_result [of "c1\<lparr>isSnapshot := True\<rparr>" backupEnv0 fsMounted]
    writeBackupFile_result [of c1 backupEnv0 fsMounted "''c1;c1/snap0;default;vol-c1''"
      "''c1''" "[?snap]" "[''c1/snap0'']" "''default''" 1 "''default''" "''vol-c1''"] h s
  show ?thesis by (simp add: fsMounted_def backupEnv0_def Join_def)
qed

section \<open>Starting a container (Start)\<close>

text \<open>
  \<^verbatim>\<open>strings.Fields\<close> splits around runs of white space as \<^verbatim>\<open>unicode.IsSpace\<close>
  defines it, on the UTF-8 encoding of the string: the six ASCII characters, U+0085 and
  U+00A0 (two bytes), U+1680, U+2000 to U+200A, U+2028, U+2029, U+202F, U+205F and
  U+3000 (three bytes). \<open>spaceWidth s\<close> is the number of bytes of the white space
  character that \<open>s\<close> starts with, 0 when it starts with none; every other byte belongs
  to a field. In \<open>fieldsFrom\<close>, \<open>skip\<close> counts the bytes of a white space character
  still to be passed.
\<close>

definition isSpace :: "char \<Rightarrow> bool" where
  "isSpace c = (c \<in> set [CHR '' '', CHR 0x09, CHR 0x0A, CHR 0x0B, CHR 0x0C, CHR 0x0D])"

definition spaceWidth :: "string \<Rightarrow> nat" where
  "spaceWidth s =
     (case s of
        [] \<Rightarrow> 0
      | c # cs \<Rightarrow>
          if isSpace c then 1
          else if c = CHR 0xC2 then
            (case cs of
               d # ds \<Rightarrow> if d = CHR 0x85 \<or> d = CHR 0xA0 then 2 else 0
             | [] \<Rightarrow> 0)
          else if c = CHR 0xE1 then (if take 2 cs = [CHR 0x9A, CHR 0x80] then 3 else 0)
          else if c = CHR 0xE2 then
            (case cs of
               d # e # es \<Rightarrow>
                 if d = CHR 0x80
                    \<and> e \<in> set [CHR 0x80, CHR 0x81, CHR 0x82, CHR 0x83, CHR 0x84, CHR 0x85,
                                CHR 0x86, CHR 0x87, CHR 0x88, CHR 0x89, CHR 0x8A, CHR 0xA8,
                                CHR 0xA9, CHR 0xAF]
                 then 3
                 else if d = CHR 0x81 \<and> e = CHR 0x9F then 3
                 else 0
             | _ \<Rightarrow> 0)
          else if c = CHR 0xE3 then (if take 2 cs = [CHR 0x80, CHR 0x80] then 3 else 0)
          else 0)"

fun fieldsFrom :: "string \<Rightarrow> nat \<Rightarrow> string \<Rightarrow> string list" where
  "fieldsFrom cur skip [] = (if cur = [] then [] else [cur])"
| "fieldsFrom cur skip (c # cs) =
     (if 0 < skip then fieldsFrom cur (skip - 1) cs
      else if 0 < spaceWidth (c # cs)
      then (if cur = [] then fieldsFrom [] (spaceWidth (c # cs) - 1) cs
            else cur # fieldsFrom [] (spaceWidth (c # cs) - 1) cs)
      else fieldsFrom (cur @ [c]) 0 cs)"

definition Fields :: "string \<Rightarrow> string list" where
  "Fields s = fieldsFrom [] 0 s"

text \<open>
  The loop over the lines of \<open>lxc.log\<close> that builds \<^verbatim>\<open>lxcLog\<close>: lines with fewer
  than four fields or whose third field is not \<open>ERROR\<close> are skipped; a line break is
  put before the first line kept.
\<close>

fun lxcErrorLines :: "string \<Rightarrow> string list \<Rightarrow> string" where
  "lxcErrorLines lxcLog [] = lxcLog"
| "lxcErrorLines lxcLog (line # lines) =
     (let fields = Fields line in
      if length fields < 4 then lxcErrorLines lxcLog lines
      else if fields ! 2 \<noteq> ''ERROR'' then lxcErrorLines lxcLog lines
      else lxcErrorLines
             ((if length lxcLog = 0 then lxcLog @ [CHR 0x0A] else lxcLog)
              @ ''  '' @ join '' '' fields @ [CHR 0x0A])
             lines)"

text \<open>
  What the steps of \<^verbatim>\<open>Start\<close> outside the sources return: the operation registry,
  the shared mounts, the common start code, the storage, the migration, the database,
  the \<^verbatim>\<open>forkstart\<close> subprocess, whether the container is then seen running, the log
  file, and the post-start hooks.
\<close>

record startEnv =
  createOperation :: "error option"
  setupSharedMounts :: "error option"
  startCommon :: "error option"
  StorageStart :: "error option"
  cStateful :: bool
  Migrate :: "error option"
  runningAfterMigrate :: bool
  removeStatePath :: "error option"
  ContainerSetStateful :: "error option"
  forkstart :: "error option"
  runningAfterFork :: bool
  logPathExists :: bool
  readLog :: "error + string"
  runHooks :: "error option"

text \<open>
  The branch of \<^verbatim>\<open>Start\<close> under \<^verbatim>\<open>err != nil && !c.IsRunning()\<close> first computes
  \<^verbatim>\<open>lxcLog\<close> (\<open>extractedLog\<close>), then logs, then executes \<^verbatim>\<open>return err\<close>: the
  value of \<^verbatim>\<open>lxcLog\<close> is not used after it is built.
\<close>

definition extractedLog :: "startEnv \<Rightarrow> string" where
  "extractedLog env =
     (if logPathExists env then
        (case readLog env of
           Inr logContent \<Rightarrow> lxcErrorLines [] (split_on (CHR 0x0A) logContent)
         | Inl err \<Rightarrow> [])
      else [])"

definition startContainer :: "startEnv \<Rightarrow> error option" where
  "startContainer env =
     (case forkstart env of
        Some err \<Rightarrow>
          if \<not> runningAfterFork env then
            (let lxcLog = extractedLog env in Some err)
          else runHooks env
      | None \<Rightarrow> runHooks env)"

definition Start :: "startEnv \<Rightarrow> bool \<Rightarrow> error option" where
  "Start env stateful =
     (case createOperation env of
        Some err \<Rightarrow> Some (Wrap err ''Create container start operation'')
      | None \<Rightarrow>
      (case setupSharedMounts env of
        Some err \<Rightarrow>
          Some (ErrorfAround ''Daemon failed to setup shared mounts base: '' err
                  (''.'' @ [CHR 0x0A] @ ''Does security.nesting need to be turned on?''))
      | None \<Rightarrow>
      (case startCommon env of
        Some err \<Rightarrow> Some (Wrap err ''Common start logic'')
      | None \<Rightarrow>
      (case StorageStart env of
        Some err \<Rightarrow> Some (Wrap err ''Storage start'')
      | None \<Rightarrow>
          if stateful then
            (if \<not> cStateful env then Some (Errorf ''Container has no existing state to restore'')
             else
               (case (if runningAfterMigrate env then None else Migrate env) of
                  Some err \<Rightarrow> Some (Wrap err ''Migrate'')
                | None \<Rightarrow>
                    (case ContainerSetStateful env of
                       Some err \<Rightarrow> Some (Wrap err ''Start container'')
                     | None \<Rightarrow> runHooks env)))
          else if cStateful env then
            (case removeStatePath env of
               Some err \<Rightarrow> Some err
             | None \<Rightarrow>
                 (case ContainerSetStateful env of
                    Some err \<Rightarrow> Some (Wrap err ''Persist stateful flag'')
                  | None \<Rightarrow> startContainer env))
          else startContainer env))))"

text \<open>
  A start whose \<^verbatim>\<open>forkstart\<close> fails with the container not running, and a log with
  one \<open>ERROR\<close> line and one \<open>INFO\<close> line.
\<close>

definition failedFork :: "string \<Rightarrow> startEnv" where
  "failedFork logContent =
     \<lparr>createOperation = None, setupSharedMounts = None, startCommon = None, StorageStart = None,
      cStateful = False, Migrate = None, runningAfterMigrate = False, removeStatePath = None,
      ContainerSetStateful = None, forkstart = Some (External ''forkstart''),
      runningAfterFork = False, logPathExists = True, readLog = Inr logContent,
      runHooks = None\<rparr>"

definition lxcLog0 :: string where
  "lxcLog0 = ''lxc-start 20191001120000.123 ERROR lxc_start - start.c:lxc_spawn:1758 - Failed to spawn''
     @ [CHR 0x0A] @ ''lxc-start 20191001120000.124 INFO lxc_conf - conf.c:run_script:1 - done''
     @ [CHR 0x0A]"

subsection \<open>Results on Start\<close>

lemma Start_failed_fork_ignores_log:
  "Start (failedFork logContent) False = Some (External ''forkstart'')"
  by (simp add: Start_def startContainer_def failedFork_def)

text \<open>
  C4. The claim is that, when \<^verbatim>\<open>forkstart\<close> fails and the container is not running,
  the error that \<^verbatim>\<open>Start\<close> returns includes the \<open>ERROR\<close> lines of the log. The code
  extracts those lines and then returns the subprocess error alone: on the log above
  the extracted text is the \<open>ERROR\<close> line, and the error returned is the same as on an
  empty log.
\<close>

theorem Start_failed_fork_evaluation:
  "extractedLog (failedFork lxcLog0) =
     [CHR 0x0A] @ ''  lxc-start 20191001120000.123 ERROR lxc_start - start.c:lxc_spawn:1758 - Failed to spawn''
       @ [CHR 0x0A]
   \<and> Start (failedFork lxcLog0) False = Some (External ''forkstart'')
   \<and> Start (failedFork []) False = Some (External ''forkstart'')"
  by code_simp

section \<open>Live change of the memory limits (Update)\<close>






text \<open>
  The soft limit \<^verbatim>\<open>fmt.Sprintf("%.0f", float64(valueInt)*0.9)\<close>, in IEEE 754 double
  precision with rounding to nearest, ties to even. \<open>Len\<close> is the bit length of a
  positive integer (\<^verbatim>\<open>bits.Len64\<close>); \<open>roundHalfEven n d\<close> is the integer nearest to
  \<open>n / d\<close>; \<open>round53\<close> rounds a non-negative integer to 53 significant bits;
  \<open>float64 v\<close> is the value of the conversion, an integer. The constant \<open>0.9\<close> is the
  double \<open>8106479329266893 / 2 ^ 53\<close>, so the product before rounding is
  \<open>float64 v * 8106479329266893 / 2 ^ 53\<close>; its rounding to 53 bits is taken on the
  numerator, and \<^verbatim>\<open>%.0f\<close> rounds the quotient by \<open>2 ^ 53\<close> to an integer (no value
  of \<open>int64\<close> leaves the normal range of the format). A negative value prints its sign.
\<close>

function Len :: "int \<Rightarrow> nat" where
  "Len n = (if n \<le> 0 then 0 else Suc (Len (n div 2)))"
  by pat_completeness auto
termination
  by (relation "measure nat") auto

declare Len.simps [simp del]

definition roundHalfEven :: "int \<Rightarrow> int \<Rightarrow> int" where
  "roundHalfEven n d =
     (if 2 * (n mod d) < d then n div d
      else if d < 2 * (n mod d) then n div d + 1
      else if even (n div d) then n div d else n div d + 1)"

definition round53 :: "int \<Rightarrow> int" where
  "round53 n =
     (if Len n \<le> 53 then n
      else roundHalfEven n (2 ^ (Len n - 53)) * 2 ^ (Len n - 53))"

definition float64 :: "int \<Rightarrow> int" where
  "float64 v = sgn v * round53 \<bar>v\<bar>"

definition softLimit :: "int \<Rightarrow> string" where
  "softLimit valueInt =
     (let f = float64 valueInt;
          x = round53 (\<bar>f\<bar> * 8106479329266893)
      in (if f < 0 then ''-'' else []) @ showInt (roundHalfEven x (2 ^ 53)))"




















subsection \<open>Results on the memory limits\<close>

lemma softLimit_examples:
  "softLimit 1073741824 = ''966367642''" "softLimit 5 = ''4''" "softLimit 15 = ''14''"
  "softLimit (- 1) = ''-1''" "softLimit 0 = ''0''"
  "softLimit 9223372036854775807 = ''8301034833169298432''"
  by code_simp+






















section \<open>Balancing containers over the cpus (deviceTaskBalance)\<close>

text \<open>
  \<^verbatim>\<open>strings.TrimSpace\<close>: white space as in \<open>spaceWidth\<close> is cut from the front, then
  from the end. \<open>spaceWidthRev\<close> reads the reversed string: the number of bytes of
  the white space character the string ends with.
\<close>

fun trimLeft :: "nat \<Rightarrow> string \<Rightarrow> string" where
  "trimLeft skip [] = []"
| "trimLeft skip (c # cs) =
     (if 0 < skip then trimLeft (skip - 1) cs
      else if 0 < spaceWidth (c # cs) then trimLeft (spaceWidth (c # cs) - 1) cs
      else c # cs)"

definition spaceWidthRev :: "string \<Rightarrow> nat" where
  "spaceWidthRev r =
     (case r of
        [] \<Rightarrow> 0
      | e # ds \<Rightarrow>
          if isSpace e then 1
          else if (e = CHR 0x85 \<or> e = CHR 0xA0) \<and> take 1 ds = [CHR 0xC2] then 2
          else if e = CHR 0x80 \<and> take 2 ds = [CHR 0x9A, CHR 0xE1] then 3
          else if e \<in> set [CHR 0x80, CHR 0x81, CHR 0x82, CHR 0x83, CHR 0x84, CHR 0x85,
                           CHR 0x86, CHR 0x87, CHR 0x88, CHR 0x89, CHR 0x8A, CHR 0xA8,
                           CHR 0xA9, CHR 0xAF]
                  \<and> take 2 ds = [CHR 0x80, CHR 0xE2] then 3
          else if e = CHR 0x9F \<and> take 2 ds = [CHR 0x81, CHR 0xE2] then 3
          else if e = CHR 0x80 \<and> take 2 ds = [CHR 0x80, CHR 0xE3] then 3
          else 0)"

fun trimRightRev :: "nat \<Rightarrow> string \<Rightarrow> string" where
  "trimRightRev skip [] = []"
| "trimRightRev skip (c # cs) =
     (if 0 < skip then trimRightRev (skip - 1) cs
      else if 0 < spaceWidthRev (c # cs) then trimRightRev (spaceWidthRev (c # cs) - 1) cs
      else c # cs)"

definition TrimSpace :: "string \<Rightarrow> string" where
  "TrimSpace s = rev (trimRightRev 0 (rev (trimLeft 0 s)))"

text \<open>
  What \<^verbatim>\<open>deviceTaskBalance\<close> reads from outside the sources: the cpuset controller
  flag, the host's \<^verbatim>\<open>cpuset.effective_cpus\<close> and \<^verbatim>\<open>cpuset.cpus\<close>, the file
  \<^verbatim>\<open>/sys/devices/system/cpu/isolated\<close>, the containers of the node, and
  \<^verbatim>\<open>IsRunning\<close> of each container, once in the first loop and once before the write.
  A container is named by its position in the loaded list (the maps of the source are
  keyed by the container object). Go leaves the order of a \<^verbatim>\<open>range\<close> over a map
  open: \<open>fixedOrder\<close>, \<open>usageOrder\<close>, \<open>balancedOrder\<close> and \<open>pinningOrder\<close> give
  the order in which the entries of the four maps are visited, from the list of their
  entries in order of insertion. \<open>sortUsage u l\<close> is \<^verbatim>\<open>sort.Sort\<close> on the slice \<open>l\<close>
  under \<^verbatim>\<open>deviceTaskCPUs.Less\<close>, which compares the counters \<open>u\<close> only.
\<close>

record balanceEnv =
  CGroupCPUsetController :: bool
  effectiveCpusItem :: "error + string"
  cpusItem :: "error + string"
  isolatedExists :: bool
  isolatedFile :: "error + string"
  containerLoadNodeAll :: "error + container list"
  runningAtLoad :: "nat \<Rightarrow> bool"
  runningAtApply :: "nat \<Rightarrow> bool"
  fixedOrder :: "(int \<times> nat list) list \<Rightarrow> (int \<times> nat list) list"
  usageOrder :: "int list \<Rightarrow> int list"
  balancedOrder :: "(nat \<times> int) list \<Rightarrow> (nat \<times> int) list"
  pinningOrder :: "(nat \<times> string list) list \<Rightarrow> (nat \<times> string list) list"
  sortUsage :: "(int \<Rightarrow> int) \<Rightarrow> int list \<Rightarrow> int list"

text \<open>
  The writes the function makes: the value written to \<^verbatim>\<open>cpuset.cpus\<close> of
  \<^verbatim>\<open>/lxc\<close> (an error of that write is logged and ignored) and, in order, the value
  written to \<^verbatim>\<open>cpuset.cpus\<close> of each container (errors are logged and ignored
  too). A part of the function ends in a value, in a \<^verbatim>\<open>return\<close>, or not at all
  (\<open>parseCpuset\<close> may not return).
\<close>

record balanceResult =
  lxcCpus :: "string option"
  cpusetWrites :: "(nat \<times> string) list"

datatype 'a outcome = Next 'a | Return | Hang

text \<open>
  \<^verbatim>\<open>m[k] = append(m[k], v)\<close>, or \<^verbatim>\<open>m[k] = []T{v}\<close> for a new key, on a map
  kept as the list of its entries in order of insertion.
\<close>

fun appendAt :: "'k \<Rightarrow> 'v \<Rightarrow> ('k \<times> 'v list) list \<Rightarrow> ('k \<times> 'v list) list" where
  "appendAt k v [] = [(k, [v])]"
| "appendAt k v ((k', vs) # rest) =
     (if k' = k then (k', vs @ [v]) # rest else (k', vs) # appendAt k v rest)"

text \<open>
  The first part, up to the string written to \<^verbatim>\<open>/lxc\<close>: the effective cpus of
  the host without the isolated ones, joined by commas.
\<close>

definition effective :: "balanceEnv \<Rightarrow> string outcome" where
  "effective env =
     (if \<not> CGroupCPUsetController env then Return
      else
        (case (case effectiveCpusItem env of Inl err \<Rightarrow> cpusItem env | Inr v \<Rightarrow> Inr v) of
           Inl err \<Rightarrow> Return
         | Inr effectiveCpus \<Rightarrow>
        (case parseCpuset effectiveCpus of
           None \<Rightarrow> Hang
         | Some (Inl err) \<Rightarrow> Return
         | Some (Inr effectiveCpusInt) \<Rightarrow>
        (case (if isolatedExists env then
                 (case isolatedFile env of
                    Inl err \<Rightarrow> Return
                  | Inr buf \<Rightarrow>
                      if TrimSpace buf \<noteq> [] then
                        (case parseCpuset (TrimSpace buf) of
                           None \<Rightarrow> Hang
                         | Some (Inl err) \<Rightarrow> Return
                         | Some (Inr ids) \<Rightarrow> Next ids)
                      else Next [])
               else Next []) of
           Hang \<Rightarrow> Hang
         | Return \<Rightarrow> Return
         | Next isolatedCpusInt \<Rightarrow>
             Next (join '','' (map showInt
                    (filter (\<lambda>id. id \<notin> set isolatedCpusInt) effectiveCpusInt)))))))"

text \<open>
  The loop over the containers. The limit of a container without \<open>limits.cpu\<close> is
  the string of effective cpus. A container that is not running is skipped; a limit
  that \<^verbatim>\<open>strconv.Atoi\<close> accepts makes the container balanced, with the count cut to
  \<^verbatim>\<open>len(cpus)\<close>; any other limit is parsed as a cpu set, an error ends the whole
  function, and the container is entered under each of its cpus that is in \<open>cpus\<close>.
\<close>

definition cpulimitOf :: "string \<Rightarrow> container \<Rightarrow> string" where
  "cpulimitOf effectiveCpus c =
     (if cfg (expandedConfig c) ''limits.cpu'' = [] then effectiveCpus
      else cfg (expandedConfig c) ''limits.cpu'')"

fun pinTo :: "nat \<Rightarrow> int list \<Rightarrow> int list \<Rightarrow> (int \<times> nat list) list \<Rightarrow> (int \<times> nat list) list" where
  "pinTo c cpus [] fixedContainers = fixedContainers"
| "pinTo c cpus (nr # containerCpus) fixedContainers =
     (if nr \<notin> set cpus then pinTo c cpus containerCpus fixedContainers
      else pinTo c cpus containerCpus (appendAt nr c fixedContainers))"

fun classify ::
  "balanceEnv \<Rightarrow> string \<Rightarrow> int list \<Rightarrow> (nat \<times> container) list
   \<Rightarrow> (int \<times> nat list) list \<Rightarrow> (nat \<times> int) list
   \<Rightarrow> ((int \<times> nat list) list \<times> (nat \<times> int) list) outcome" where
  "classify env effectiveCpus cpus [] fixedContainers balancedContainers =
     Next (fixedContainers, balancedContainers)"
| "classify env effectiveCpus cpus ((i, c) # containers) fixedContainers balancedContainers =
     (if \<not> runningAtLoad env i
      then classify env effectiveCpus cpus containers fixedContainers balancedContainers
      else
        (case Atoi (cpulimitOf effectiveCpus c) of
           Some cnt \<Rightarrow>
             classify env effectiveCpus cpus containers fixedContainers
               (balancedContainers @ [(i, min cnt (int (length cpus)))])
         | None \<Rightarrow>
             (case parseCpuset (cpulimitOf effectiveCpus c) of
                None \<Rightarrow> Hang
              | Some (Inl err) \<Rightarrow> Return
              | Some (Inr containerCpus) \<Rightarrow>
                  classify env effectiveCpus cpus containers
                    (pinTo i cpus containerCpus fixedContainers) balancedContainers)))"

text \<open>
  The balancing: \<open>sortedUsage\<close>, \<open>pinning\<close> and the counters of \<open>usage\<close> (a cpu
  outside \<open>cpus\<close> has no counter and is never counted). The counters count entries
  appended to the lists, so they stay far below \<open>2\<^sup>6\<^sup>3\<close>; \<open>count\<close> in
  \<open>takeCpus\<close> goes down from its value without reaching 0 when it is negative.
  \<open>assign\<close> is the pair of statements that gives a cpu to a container.
\<close>

record balancing =
  sortedUsage :: "int list"
  pinning :: "(nat \<times> string list) list"
  usage :: "int \<Rightarrow> int"

definition assign :: "nat \<Rightarrow> int \<Rightarrow> balancing \<Rightarrow> balancing" where
  "assign ctn cpu st =
     st\<lparr>pinning := appendAt ctn (showInt cpu) (pinning st),
        usage := (usage st)(cpu := usage st cpu + 1)\<rparr>"

fun pinFixed :: "int \<Rightarrow> nat list \<Rightarrow> balancing \<Rightarrow> balancing" where
  "pinFixed cpu [] st = st"
| "pinFixed cpu (ctn # ctns) st = pinFixed cpu ctns (assign ctn cpu st)"

fun pinAllFixed :: "int list \<Rightarrow> (int \<times> nat list) list \<Rightarrow> balancing \<Rightarrow> balancing" where
  "pinAllFixed cpus [] st = st"
| "pinAllFixed cpus ((cpu, ctns) # rest) st =
     (if cpu \<notin> set cpus then pinAllFixed cpus rest st
      else pinAllFixed cpus rest (pinFixed cpu ctns st))"

fun takeCpus :: "nat \<Rightarrow> int \<Rightarrow> int list \<Rightarrow> balancing \<Rightarrow> balancing" where
  "takeCpus ctn cnt [] st = st"
| "takeCpus ctn cnt (cpu # rest) st =
     (if cnt = 0 then st else takeCpus ctn (cnt - 1) rest (assign ctn cpu st))"

definition balanceOne :: "balanceEnv \<Rightarrow> nat \<times> int \<Rightarrow> balancing \<Rightarrow> balancing" where
  "balanceOne env b st =
     (let sorted = sortUsage env (usage st) (sortedUsage st)
      in takeCpus (fst b) (snd b) sorted (st\<lparr>sortedUsage := sorted\<rparr>))"

fun balanceAll :: "balanceEnv \<Rightarrow> (nat \<times> int) list \<Rightarrow> balancing \<Rightarrow> balancing" where
  "balanceAll env [] st = st"
| "balanceAll env (b # rest) st = balanceAll env rest (balanceOne env b st)"

text \<open>
  The last loop: a container that is no longer running is skipped; the others get
  their cpus, sorted as strings and joined by commas.
\<close>

fun applyPinning :: "balanceEnv \<Rightarrow> (nat \<times> string list) list \<Rightarrow> (nat \<times> string) list" where
  "applyPinning env [] = []"
| "applyPinning env ((ctn, cpuset) # rest) =
     (if \<not> runningAtApply env ctn then applyPinning env rest
      else (ctn, join '','' (sort cpuset)) # applyPinning env rest)"

text \<open>
  \<^verbatim>\<open>deviceTaskBalance\<close>: the state after the pinned containers are entered (with
  \<open>sortedUsage\<close> filled from the map \<open>usage\<close>, one entry per cpu), and the function.
\<close>

definition pinnedState :: "balanceEnv \<Rightarrow> int list \<Rightarrow> (int \<times> nat list) list \<Rightarrow> balancing" where
  "pinnedState env cpus fixedContainers =
     (pinAllFixed cpus (fixedOrder env fixedContainers)
        \<lparr>sortedUsage = [], pinning = [], usage = (\<lambda>id. 0)\<rparr>)
     \<lparr>sortedUsage := usageOrder env (remdups cpus)\<rparr>"

definition nothingDone :: balanceResult where
  "nothingDone = \<lparr>lxcCpus = None, cpusetWrites = []\<rparr>"

definition deviceTaskBalance :: "balanceEnv \<Rightarrow> balanceResult option" where
  "deviceTaskBalance env =
     (case effective env of
        Hang \<Rightarrow> None
      | Return \<Rightarrow> Some nothingDone
      | Next effectiveCpus \<Rightarrow>
     (case parseCpuset effectiveCpus of
        None \<Rightarrow> None
      | Some (Inl err) \<Rightarrow> Some \<lparr>lxcCpus = Some effectiveCpus, cpusetWrites = []\<rparr>
      | Some (Inr cpus) \<Rightarrow>
     (case containerLoadNodeAll env of
        Inl err \<Rightarrow> Some \<lparr>lxcCpus = Some effectiveCpus, cpusetWrites = []\<rparr>
      | Inr containers \<Rightarrow>
     (case classify env effectiveCpus cpus (enumerate 0 containers) [] [] of
        Hang \<Rightarrow> None
      | Return \<Rightarrow> Some \<lparr>lxcCpus = Some effectiveCpus, cpusetWrites = []\<rparr>
      | Next (fixedContainers, balancedContainers) \<Rightarrow>
          Some \<lparr>lxcCpus = Some effectiveCpus,
                cpusetWrites =
                  applyPinning env (pinningOrder env (pinning
                    (balanceAll env (balancedOrder env balancedContainers)
                       (pinnedState env cpus fixedContainers))))\<rparr>))))"

text \<open>
  To state the results: the pairs of a map of lists and the values under a key; the
  cpus a limit asks for; the cpus \<open>takeCpus\<close> takes from a sorted list; maps of lists
  with distinct keys and no empty list; orders that visit every entry once, and sorts
  that return the entries by counter; the state when the balanced container at
  position \<open>p\<close> of the visiting order is reached and the cpus it is given; cpus whose
  counter is not above that of any cpu left out; the value written for a list of cpus
  (none for the empty list); and the number of running pinned containers that ask for a
  cpu.
\<close>

definition entries :: "('k \<times> 'v list) list \<Rightarrow> ('k \<times> 'v) list" where
  "entries m = concat (map (\<lambda>(k, vs). map (Pair k) vs) m)"












text \<open>
  Concrete inputs: a host with the given cpus, no isolated cpu and running containers,
  whose map of counters is visited in the given order and whose sort is a stable
  insertion sort (what \<^verbatim>\<open>sort.Sort\<close> does on fewer than 12 elements); containers
  with a limit.
\<close>

definition cpuHost :: "string \<Rightarrow> (int list \<Rightarrow> int list) \<Rightarrow> container list \<Rightarrow> balanceEnv" where
  "cpuHost cpus order cts =
     \<lparr>CGroupCPUsetController = True, effectiveCpusItem = Inr cpus, cpusItem = Inr cpus,
      isolatedExists = False, isolatedFile = Inr [],
      containerLoadNodeAll = Inr cts,
      runningAtLoad = (\<lambda>i. True), runningAtApply = (\<lambda>i. True),
      fixedOrder = (\<lambda>m. m), usageOrder = order, balancedOrder = (\<lambda>m. m),
      pinningOrder = (\<lambda>m. m),
      sortUsage = (\<lambda>u ids. sort_key u ids)\<rparr>"

definition limited :: "string \<Rightarrow> string \<Rightarrow> container" where
  "limited n cpu =
     \<lparr>name = n, isSnapshot = False, expandedConfig = [''limits.cpu'' \<mapsto> cpu],
      localConfig = Map.empty\<rparr>"

definition pinnedAndBalanced :: "container list" where
  "pinnedAndBalanced =
     [limited ''c1'' ''1'', limited ''c2'' ''0,2'', limited ''c3'' ''2'', limited ''c4'' []]"

subsection \<open>Results on deviceTaskBalance\<close>

declare parseChunks_char [code]

lemma TrimSpace_examples:
  "TrimSpace ('' 2-3'' @ [CHR 0x0A]) = ''2-3''"
  "TrimSpace [CHR 0x0A] = []"
  "TrimSpace ([CHR 0xC2, CHR 0xA0] @ ''0'' @ [CHR 0xE2, CHR 0x80, CHR 0xA8, CHR 0x20]) = ''0''"
  "TrimSpace ([CHR 0xE2, CHR 0x80] @ ''0 1'' @ [CHR 0x80, CHR 0xA8]) = [CHR 0xE2, CHR 0x80] @ ''0 1'' @ [CHR 0x80, CHR 0xA8]"
  by code_simp+


















lemma assign_fields:
  "pinning (assign ctn cpu st) = appendAt ctn (showInt cpu) (pinning st)"
  "usage (assign ctn cpu st) = (usage st)(cpu := usage st cpu + 1)"
  "sortedUsage (assign ctn cpu st) = sortedUsage st"
  by (simp_all add: assign_def)



lemma pinFixed_fold: "pinFixed cpu ctns st = fold (\<lambda>ctn. assign ctn cpu) ctns st"
  by (induction ctns arbitrary: st) simp_all







lemma pin_sortedUsage: "sortedUsage (fold (\<lambda>ctn. assign ctn cpu) ctns st) = sortedUsage st"
  by (induction ctns arbitrary: st) (simp_all add: assign_fields)






lemma pinAllFixed_sortedUsage: "sortedUsage (pinAllFixed cpus F st) = sortedUsage st"
proof (induction F arbitrary: st)
  case Nil
  show ?case by simp
next
  case (Cons e F)
  obtain cpu ctns where e: "e = (cpu, ctns)" by (cases e)
  show ?case unfolding e by (simp add: Cons.IH pinFixed_fold pin_sortedUsage)
qed



































lemma ex_unparsable:
  "deviceTaskBalance (cpuHost ''0-3'' (\<lambda>ids. ids)
      [limited ''c1'' ''1'', limited ''c2'' ''x'', limited ''c3'' ''2'']) =
     Some \<lparr>lxcCpus = Some ''0,1,2,3'', cpusetWrites = []\<rparr>"
  by code_simp

lemma ex_isolated:
  "deviceTaskBalance
     ((cpuHost ''0-3'' (\<lambda>ids. ids) [limited ''c1'' ''4'', limited ''c2'' ''1-2''])
        \<lparr>isolatedExists := True, isolatedFile := Inr ('' 2-3'' @ [CHR 0x0A])\<rparr>) =
     Some \<lparr>lxcCpus = Some ''0,1'', cpusetWrites = [(1, ''1''), (0, ''0,1'')]\<rparr>"
  by code_simp

lemma ex_all:
  "deviceTaskBalance (cpuHost ''0-3'' rev pinnedAndBalanced) =
     Some \<lparr>lxcCpus = Some ''0,1,2,3'',
           cpusetWrites = [(1, ''0,2''), (3, ''0,1,2,3''), (0, ''3''), (2, ''1,3'')]\<rparr>"
  by code_simp

lemma classify_returns:
  assumes "\<forall>p\<in>set ics. runningAtLoad env (fst p) \<longrightarrow>
             Atoi (cpulimitOf E (snd p)) \<noteq> None
             \<or> (\<exists>cs. parseCpuset (cpulimitOf E (snd p)) = Some (Inr cs))"
  shows "\<exists>F B. classify env E cpus ics F0 B0 = Next (F, B)"
  using assms
proof (induction ics arbitrary: F0 B0)
  case Nil
  show ?case by simp
next
  case (Cons e ics)
  obtain i c where e: "e = (i, c)" by (cases e)
  from Cons.prems have rest: "\<forall>p\<in>set ics. runningAtLoad env (fst p) \<longrightarrow>
             Atoi (cpulimitOf E (snd p)) \<noteq> None
             \<or> (\<exists>cs. parseCpuset (cpulimitOf E (snd p)) = Some (Inr cs))" by simp
  show ?case
  proof (cases "runningAtLoad env i")
    case False
    with Cons.IH [OF rest] show ?thesis unfolding e by simp
  next
    case run: True
    show ?thesis
    proof (cases "Atoi (cpulimitOf E c)")
      case (Some cnt)
      with run Cons.IH [OF rest] show ?thesis unfolding e by simp
    next
      case None
      with run Cons.prems obtain cs where "parseCpuset (cpulimitOf E c) = Some (Inr cs)"
        unfolding e by auto
      with run None Cons.IH [OF rest] show ?thesis unfolding e by simp
    qed
  qed
qed

lemma effective_value:
  assumes "CGroupCPUsetController env"
    and "effectiveCpusItem env = Inr h \<or> (\<exists>e. effectiveCpusItem env = Inl e) \<and> cpusItem env = Inr h"
    and "parseCpuset h = Some (Inr hostCpus)"
    and "if isolatedExists env
         then \<exists>buf. isolatedFile env = Inr buf
                \<and> (if TrimSpace buf = [] then isolated = []
                    else parseCpuset (TrimSpace buf) = Some (Inr isolated))
         else isolated = []"
  shows "effective env =
     Next (join '','' (map showInt (filter (\<lambda>id. id \<notin> set isolated) hostCpus)))"
  using assms by (auto simp: effective_def split: if_splits)






section \<open>The operation registry (lxcContainerOperation, createOperation)\<close>

text \<open>
  An operation with the fields of the source; the channel \<^verbatim>\<open>chanDone\<close> is open or
  closed; of the goroutine started by \<^verbatim>\<open>Create\<close> the state keeps whether it is
  still in its loop and when its current \<^verbatim>\<open>time.After\<close> fires. Operations live
  in a heap and a pointer is a position in it. The registry is the map
  \<^verbatim>\<open>lxcContainerOperations\<close> from container ids to pointers; the clock counts
  seconds.
\<close>

record lxcContainerOperation =
  action :: string
  opErr :: "error option"
  opId :: int
  reusable :: bool
  chanDoneClosed :: bool
  timerRunning :: bool
  timerDeadline :: nat

record registry =
  heap :: "lxcContainerOperation list"
  lxcContainerOperations :: "int \<rightharpoonup> nat"
  clock :: nat

text \<open>
  \<^verbatim>\<open>Create\<close> allocates the operation and starts its goroutine, whose first
  \<^verbatim>\<open>time.After\<close> fires 30 seconds later. \<^verbatim>\<open>Reset\<close> fails on an operation that is
  not reusable; otherwise it sends on \<^verbatim>\<open>chanReset\<close>, which the goroutine receives
  by starting a new wait of 30 seconds; with no goroutine left to receive, the send
  never returns. \<^verbatim>\<open>Done\<close> does nothing unless the registry holds this very
  operation under its id; then it stores the error, closes \<^verbatim>\<open>chanDone\<close> and
  deletes the entry. \<open>timerFires\<close> is the goroutine's \<^verbatim>\<open>time.After\<close> branch: it
  reqs \<^verbatim>\<open>Done\<close> with the timeout error and ends the goroutine.
\<close>

datatype 'a blocking = Blocks | Returns 'a

definition Create :: "int \<Rightarrow> string \<Rightarrow> bool \<Rightarrow> registry \<Rightarrow> nat \<times> registry" where
  "Create cid act reusable' s =
     (length (heap s),
      s\<lparr>heap := heap s @
           [\<lparr>action = act, opErr = None, opId = cid, reusable = reusable', chanDoneClosed = False,
             timerRunning = True, timerDeadline = clock s + 30\<rparr>]\<rparr>)"

definition Reset :: "nat \<Rightarrow> registry \<Rightarrow> (error option \<times> registry) blocking" where
  "Reset p s =
     (if \<not> reusable (heap s ! p)
      then Returns (Some (Errorf ''Can't reset a non-reusable operation''), s)
      else if timerRunning (heap s ! p)
      then Returns (None, s\<lparr>heap := (heap s)[p := (heap s ! p)\<lparr>timerDeadline := clock s + 30\<rparr>]\<rparr>)
      else Blocks)"

definition Done :: "nat \<Rightarrow> error option \<Rightarrow> registry \<Rightarrow> registry" where
  "Done p err s =
     (if lxcContainerOperations s (opId (heap s ! p)) \<noteq> Some p then s
      else s\<lparr>heap := (heap s)[p := (heap s ! p)\<lparr>opErr := err, chanDoneClosed := True\<rparr>],
             lxcContainerOperations := (lxcContainerOperations s)(opId (heap s ! p) := None)\<rparr>)"

definition timedOut :: "string \<Rightarrow> error" where
  "timedOut act = Errorf (''Container '' @ act @ '' operation timed out after 30 seconds'')"

definition timerFires :: "nat \<Rightarrow> registry \<Rightarrow> registry option" where
  "timerFires p s =
     (if p < length (heap s) \<and> timerRunning (heap s ! p) \<and> timerDeadline (heap s ! p) \<le> clock s
      then (let s' = Done p (Some (timedOut (action (heap s ! p)))) s
            in Some (s'\<lparr>heap := (heap s')[p := (heap s' ! p)\<lparr>timerRunning := False\<rparr>]\<rparr>))
      else None)"

text \<open>
  \<^verbatim>\<open>getOperation\<close> reads the registry under the lock and releases it.
  \<^verbatim>\<open>createOperation\<close> reqs \<^verbatim>\<open>getOperation("")\<close> first; what it does after that call
  has returned is \<open>createOperation_rest\<close>: with an operation found, reuse it or fail;
  with none found, take the lock again, create the operation and enter it. In
  \<open>createOperation\<close> nothing happens between the two.
\<close>

definition getOperation :: "int \<Rightarrow> string \<Rightarrow> registry \<Rightarrow> error + nat" where
  "getOperation cid act s =
     (case lxcContainerOperations s cid of
        None \<Rightarrow> Inl (Errorf (''No running '' @ act @ '' container operation''))
      | Some p \<Rightarrow>
          if act \<noteq> [] \<and> action (heap s ! p) \<noteq> act
          then Inl (Errorf (''Container is running a '' @ action (heap s ! p)
                            @ '' operation, not a '' @ act @ '' operation''))
          else Inr p)"

definition busy :: "string \<Rightarrow> error" where
  "busy act = Errorf (''Container is busy running a '' @ act @ '' operation'')"

definition createOperation_rest ::
  "int \<Rightarrow> string \<Rightarrow> bool \<Rightarrow> bool \<Rightarrow> error + nat \<Rightarrow> registry \<Rightarrow> ((error + nat) \<times> registry) blocking" where
  "createOperation_rest cid act reusable' reuse found s =
     (case found of
        Inr p \<Rightarrow>
          if reuse \<and> reusable (heap s ! p) then
            (case Reset p s of
               Blocks \<Rightarrow> Blocks
             | Returns (e, s') \<Rightarrow> Returns (Inr p, s'))
          else Returns (Inl (busy (action (heap s ! p))), s)
      | Inl e \<Rightarrow>
          (case Create cid act reusable' s of
             (p, s') \<Rightarrow>
               Returns (Inr p, s'\<lparr>lxcContainerOperations := (lxcContainerOperations s')(cid \<mapsto> p)\<rparr>)))"

definition createOperation ::
  "int \<Rightarrow> string \<Rightarrow> bool \<Rightarrow> bool \<Rightarrow> registry \<Rightarrow> ((error + nat) \<times> registry) blocking" where
  "createOperation cid act reusable' reuse s =
     createOperation_rest cid act reusable' reuse (getOperation cid [] s) s"

text \<open>
  Goroutines that run side by side: each caller \<open>t\<close> makes one call of
  \<^verbatim>\<open>createOperation\<close>, whose arguments are \<open>reqs t\<close>. An event is one step taken
  while the lock is held or one step of a goroutine: \<open>Begin t\<close> is the caller's
  \<^verbatim>\<open>getOperation\<close>, \<open>End t\<close> the rest of its \<^verbatim>\<open>createOperation\<close>,
  \<open>CallDone t err\<close> its call of \<^verbatim>\<open>Done\<close> on the operation it was given,
  \<open>Timer p\<close> the firing of the timer of operation \<open>p\<close>, and \<open>Tick\<close> the passing
  of one second. An event that cannot happen in a state has no successor.
\<close>

record request =
  reqContainer :: int
  callAction :: string
  callReusable :: bool
  callReuse :: bool

record world =
  reg :: registry
  found :: "nat \<rightharpoonup> error + nat"
  returned :: "nat \<rightharpoonup> error + nat"

datatype event = Begin nat | End nat | CallDone nat "error option" | Timer nat | Tick

definition step :: "(nat \<Rightarrow> request) \<Rightarrow> event \<Rightarrow> world \<Rightarrow> world option" where
  "step reqs ev w =
     (case ev of
        Begin t \<Rightarrow>
          if found w t \<noteq> None then None
          else Some (w\<lparr>found := (found w)(t \<mapsto> getOperation (reqContainer (reqs t)) [] (reg w))\<rparr>)
      | End t \<Rightarrow>
          (case found w t of
             None \<Rightarrow> None
           | Some f \<Rightarrow>
               if returned w t \<noteq> None then None
               else
                 (case createOperation_rest (reqContainer (reqs t)) (callAction (reqs t))
                         (callReusable (reqs t)) (callReuse (reqs t)) f (reg w) of
                    Blocks \<Rightarrow> None
                  | Returns (r, s') \<Rightarrow> Some (w\<lparr>reg := s', returned := (returned w)(t \<mapsto> r)\<rparr>)))
      | CallDone t err \<Rightarrow>
          (case returned w t of
             Some (Inr p) \<Rightarrow> Some (w\<lparr>reg := Done p err (reg w)\<rparr>)
           | _ \<Rightarrow> None)
      | Timer p \<Rightarrow>
          (case timerFires p (reg w) of
             None \<Rightarrow> None
           | Some s' \<Rightarrow> Some (w\<lparr>reg := s'\<rparr>))
      | Tick \<Rightarrow> Some (w\<lparr>reg := (reg w)\<lparr>clock := clock (reg w) + 1\<rparr>\<rparr>))"

fun runEvents :: "(nat \<Rightarrow> request) \<Rightarrow> event list \<Rightarrow> world \<Rightarrow> world option" where
  "runEvents reqs [] w = Some w"
| "runEvents reqs (ev # evs) w = (case step reqs ev w of None \<Rightarrow> None | Some w' \<Rightarrow> runEvents reqs evs w')"

text \<open>
  To state the results: the operations whose \<^verbatim>\<open>chanDone\<close> is still open; an
  operation that is open and is not the one registered under its id; and the two
  callers of the example, who ask for a start and a stop of container 7 at a time when
  no operation is registered.
\<close>

definition alive :: "registry \<Rightarrow> nat list" where
  "alive s = filter (\<lambda>p. \<not> chanDoneClosed (heap s ! p)) [0..<length (heap s)]"

definition orphan :: "nat \<Rightarrow> registry \<Rightarrow> bool" where
  "orphan p s =
     (p < length (heap s) \<and> \<not> chanDoneClosed (heap s ! p)
      \<and> lxcContainerOperations s (opId (heap s ! p)) \<noteq> Some p)"

definition world0 :: world where
  "world0 = \<lparr>reg = \<lparr>heap = [], lxcContainerOperations = Map.empty, clock = 0\<rparr>,
             found = Map.empty, returned = Map.empty\<rparr>"

definition startAndStop :: "nat \<Rightarrow> request" where
  "startAndStop t =
     \<lparr>reqContainer = 7, callAction = (if t = 0 then ''start'' else ''stop''),
      callReusable = False, callReuse = False\<rparr>"

definition race :: "event list" where
  "race = [Begin 0, Begin 1, End 0, End 1]"

subsection \<open>Results on the operation registry\<close>

lemma Done_orphan: "orphan p s \<Longrightarrow> orphan p (Done q err s)"
proof (cases "q = p")
  case True
  assume "orphan p s"
  with True show ?thesis by (simp add: orphan_def Done_def)
next
  case False
  assume "orphan p s"
  with False show ?thesis by (auto simp: orphan_def Done_def)
qed

lemma timerFires_orphan: "timerFires q s = Some s' \<Longrightarrow> orphan p s \<Longrightarrow> orphan p s'"
proof -
  assume f: "timerFires q s = Some s'" and o: "orphan p s"
  let ?d = "Done q (Some (timedOut (action (heap s ! q)))) s"
  from f have s': "s' = ?d\<lparr>heap := (heap ?d)[q := (heap ?d ! q)\<lparr>timerRunning := False\<rparr>]\<rparr>"
    by (simp add: timerFires_def Let_def split: if_splits)
  from o have "orphan p ?d" by (rule Done_orphan)
  then show ?thesis unfolding s' by (cases "q = p") (auto simp: orphan_def)
qed

lemma Reset_orphan: "Reset q s = Returns (e, s') \<Longrightarrow> orphan p s \<Longrightarrow> orphan p s'"
  by (cases "q = p") (auto simp: Reset_def orphan_def split: if_splits)

lemma createOperation_rest_orphan:
  assumes "createOperation_rest cid act reusable' reuse f s = Returns (r, s')" and "orphan p s"
  shows "orphan p s'"
proof (cases f)
  case (Inl e)
  with assms(1) have s': "s' = (snd (Create cid act reusable' s))
      \<lparr>lxcContainerOperations :=
         (lxcContainerOperations (snd (Create cid act reusable' s)))(cid \<mapsto> length (heap s))\<rparr>"
    by (auto simp: createOperation_rest_def Create_def)
  from assms(2) show ?thesis unfolding s' by (auto simp: orphan_def Create_def nth_append)
next
  case (Inr q)
  show ?thesis
  proof (cases "reuse \<and> reusable (heap s ! q)")
    case True
    with Inr assms(1) obtain e where "Reset q s = Returns (e, s')"
      by (auto simp: createOperation_rest_def split: blocking.splits)
    then show ?thesis using assms(2) by (rule Reset_orphan)
  next
    case False
    with Inr assms(1) have "s' = s" by (auto simp: createOperation_rest_def)
    with assms(2) show ?thesis by simp
  qed
qed

lemma step_orphan:
  assumes "step reqs ev w = Some w'" and "orphan p (reg w)"
  shows "orphan p (reg w')"
proof (cases ev)
  case (Begin t)
  with assms show ?thesis by (auto simp: step_def split: if_splits)
next
  case (End t)
  with assms(1) obtain f r s' where
    "createOperation_rest (reqContainer (reqs t)) (callAction (reqs t)) (callReusable (reqs t))
       (callReuse (reqs t)) f (reg w) = Returns (r, s')" and "reg w' = s'"
    by (auto simp: step_def split: option.splits if_splits blocking.splits)
  with assms(2) show ?thesis using createOperation_rest_orphan by metis
next
  case (CallDone t err)
  with assms(1) obtain q where "reg w' = Done q err (reg w)"
    by (auto simp: step_def split: option.splits sum.splits)
  with assms(2) show ?thesis by (simp add: Done_orphan)
next
  case (Timer q)
  with assms(1) obtain s' where "timerFires q (reg w) = Some s'" and "reg w' = s'"
    by (auto simp: step_def split: option.splits)
  with assms(2) show ?thesis using timerFires_orphan by metis
next
  case Tick
  with assms show ?thesis by (auto simp: step_def orphan_def)
qed

lemma runEvents_orphan:
  "runEvents reqs evs w = Some w' \<Longrightarrow> orphan p (reg w) \<Longrightarrow> orphan p (reg w')"
proof (induction evs arbitrary: w)
  case Nil
  then show ?case by simp
next
  case (Cons ev evs)
  from Cons.prems(1) obtain w1 where s: "step reqs ev w = Some w1" and r: "runEvents reqs evs w1 = Some w'"
    by (auto split: option.splits)
  from s Cons.prems(2) have "orphan p (reg w1)" by (rule step_orphan)
  with r show ?case by (rule Cons.IH)
qed

lemma createOperation_sequential:
  "lxcContainerOperations s cid = None \<Longrightarrow>
     createOperation cid act reusable' reuse s =
       Returns (Inr (length (heap s)),
         s\<lparr>heap := heap s @
              [\<lparr>action = act, opErr = None, opId = cid, reusable = reusable',
                chanDoneClosed = False, timerRunning = True, timerDeadline = clock s + 30\<rparr>],
           lxcContainerOperations := (lxcContainerOperations s)(cid \<mapsto> length (heap s))\<rparr>)"
  "lxcContainerOperations s cid = Some p \<Longrightarrow> reuse \<Longrightarrow> reusable (heap s ! p)
     \<Longrightarrow> timerRunning (heap s ! p) \<Longrightarrow>
     createOperation cid act reusable' reuse s =
       Returns (Inr p, s\<lparr>heap := (heap s)[p := (heap s ! p)\<lparr>timerDeadline := clock s + 30\<rparr>]\<rparr>)"
  "lxcContainerOperations s cid = Some p \<Longrightarrow> \<not> (reuse \<and> reusable (heap s ! p)) \<Longrightarrow>
     createOperation cid act reusable' reuse s = Returns (Inl (busy (action (heap s ! p))), s)"
  "\<not> reusable (heap s ! p) \<Longrightarrow>
     Reset p s = Returns (Some (Errorf ''Can't reset a non-reusable operation''), s)"
  by (auto simp: createOperation_def createOperation_rest_def getOperation_def Create_def Reset_def)

lemma race_evaluation:
  "map_option (\<lambda>w. (returned w 0, returned w 1, alive (reg w), map opId (heap (reg w)),
                     lxcContainerOperations (reg w) 7))
     (runEvents startAndStop race world0)
   = Some (Some (Inr 0), Some (Inr 1), [0, 1], [7, 7], Some 1)"
  by code_simp

lemma race_aftermath:
  "map_option (\<lambda>w. (alive (reg w), map timerRunning (heap (reg w)), map opErr (heap (reg w)),
                     lxcContainerOperations (reg w) 7, orphan 0 (reg w)))
     (runEvents startAndStop (race @ [CallDone 0 None] @ replicate 30 Tick @ [Timer 0, Timer 1]) world0)
   = Some ([0], [False, False], [None, Some (timedOut ''stop'')], None, True)"
  by code_simp

lemma serial_evaluation:
  "map_option (\<lambda>w. (returned w 0, returned w 1, alive (reg w)))
     (runEvents startAndStop [Begin 0, End 0, Begin 1, End 1] world0)
   = Some (Some (Inr 0), Some (Inl (busy ''start'')), [0])"
  by code_simp

text \<open>
  C2. At most one operation per container is claimed to be alive at any time, each
  completed by its timer unless \<^verbatim>\<open>Done\<close> is called first. \<^verbatim>\<open>createOperation\<close>
  releases the lock between looking for an operation and entering the new one. When
  two callers both look before either enters, both are given an operation for
  container 7 and both operations are alive; the registry holds the second. The first
  can then no longer be completed: \<^verbatim>\<open>Done\<close> by its owner and by its timer 30
  seconds later both return at \<^verbatim>\<open>runningOp != op\<close>, so its \<^verbatim>\<open>chanDone\<close> stays
  open with no timer left, and by \<open>runEvents_orphan\<close> it stays open whatever follows. Taken
  one after the other the same two reqs give an operation and the error
  "Container is busy running a start operation" (\<open>serial_evaluation\<close>).
\<close>

theorem createOperation_race_evaluation:
  "map_option (\<lambda>w. (returned w 0, returned w 1, alive (reg w), map opId (heap (reg w)),
                     lxcContainerOperations (reg w) 7))
     (runEvents startAndStop race world0)
   = Some (Some (Inr 0), Some (Inr 1), [0, 1], [7, 7], Some 1)
   \<and> map_option (\<lambda>w. (alive (reg w), map timerRunning (heap (reg w)), map opErr (heap (reg w)),
                       lxcContainerOperations (reg w) 7, orphan 0 (reg w)))
       (runEvents startAndStop (race @ [CallDone 0 None] @ replicate 30 Tick @ [Timer 0, Timer 1]) world0)
     = Some ([0], [False, False], [None, Some (timedOut ''stop'')], None, True)"
  using race_evaluation race_aftermath by simp

end
